theory Spec2Isabelle
  imports Complex_Main "HOL-Library.Word" "HOL-Library.Multiset" "HOL-Library.Log_Nat"
begin

section \<open>heif2jpeg: the memory-aware batch scheduler\<close>

text \<open>
  A shallow embedding of \<^verbatim>\<open>heif2jpeg.cpp\<close>. The C++ types are kept:
  \<^verbatim>\<open>int\<close> and \<^verbatim>\<open>unsigned int\<close> are 32-bit words (read with \<open>sint\<close> where the
  source compares signed values), \<^verbatim>\<open>size_t\<close> is a 64-bit word, \<^verbatim>\<open>std::atomic<int>\<close>
  is a 32-bit word whose increment wraps. Paths are strings.
\<close>

type_synonym c_int = "32 word"
type_synonym c_uint = "32 word"
type_synonym size_t = "64 word"
type_synonym path = string
type_synonym bytes = "8 word list"

subsection \<open>The job record and its ordering\<close>

text \<open>
  \<^verbatim>\<open>struct ImageJob\<close> (lines 178-187). \<^verbatim>\<open>operator<\<close> is reversed on purpose, so that
  the largest element of the priority queue is the job with the smallest estimate.
\<close>

record ImageJob =
  input_path :: path
  output_path :: path
  estimated_memory_mb :: size_t

definition ImageJob_less :: "ImageJob \<Rightarrow> ImageJob \<Rightarrow> bool" where
  "ImageJob_less a b = (estimated_memory_mb b < estimated_memory_mb a)"

subsection \<open>The per-thread memory ceiling\<close>

text \<open>
  The constructor \<^verbatim>\<open>BatchProcessor::BatchProcessor\<close> (lines 496-502). The division
  \<^verbatim>\<open>memory_budget_mb / thread_count\<close> is a \<^verbatim>\<open>size_t\<close> division after the usual
  conversion of \<^verbatim>\<open>thread_count\<close>; with \<^verbatim>\<open>thread_count = 0\<close> it is undefined in C++
  (a trap on the usual targets), which is the result \<open>None\<close> here.
\<close>

record BatchProcessor =
  job_queue :: "ImageJob list"
  quality :: c_int
  force_overwrite :: bool
  max_width :: c_int
  max_height :: c_int
  memory_per_thread_mb :: size_t
  thread_count :: c_uint

definition new_BatchProcessor ::
  "c_int \<Rightarrow> bool \<Rightarrow> c_int \<Rightarrow> c_int \<Rightarrow> size_t \<Rightarrow> c_uint \<Rightarrow> BatchProcessor option" where
  "new_BatchProcessor q force mw mh memory_budget_mb n =
     (if n = 0 then None
      else Some \<lparr> job_queue = [], quality = q, force_overwrite = force,
                  max_width = mw, max_height = mh,
                  memory_per_thread_mb = max 100 (memory_budget_mb div ucast n),
                  thread_count = n \<rparr>)"

subsection \<open>Paths\<close>

text \<open>
  The members of \<^verbatim>\<open>std::filesystem::path\<close> the program calls, on POSIX paths, after
  the C++17 library's description: \<^verbatim>\<open>filename()\<close> is what follows the last separator,
  \<^verbatim>\<open>extension()\<close> starts at the rightmost period of the filename, unless the filename
  is \<^verbatim>\<open>.\<close> or \<^verbatim>\<open>..\<close>, has no period or has its only period in front;
  \<^verbatim>\<open>parent_path()\<close> drops the filename and the separators before it.
  \<^verbatim>\<open>::tolower\<close> is the one of the C locale: it adds 32 (sets bit 5) to the codes
  65 to 90 of the capital letters.
\<close>

definition filename :: "path \<Rightarrow> path" where
  "filename p = rev (takeWhile (\<lambda>c. c \<noteq> CHR ''/'') (rev p))"

definition extension :: "path \<Rightarrow> string" where
  "extension p =
     (let f = filename p; e = rev (takeWhile (\<lambda>c. c \<noteq> CHR ''.'') (rev f))
      in if f = ''.'' \<or> f = ''..'' \<or> CHR ''.'' \<notin> set f \<or> length e + 1 = length f then []
         else CHR ''.'' # e)"

definition parent_path :: "path \<Rightarrow> path" where
  "parent_path p =
     (let d = dropWhile (\<lambda>c. c \<noteq> CHR ''/'') (rev p);
          d' = dropWhile (\<lambda>c. c = CHR ''/'') d
      in if d = [] then [] else if d' = [] then ''/'' else rev d')"

definition c_tolower :: "char \<Rightarrow> char" where
  "c_tolower c =
     (if 65 \<le> (of_char c :: nat) \<and> (of_char c :: nat) \<le> 90
      then (case c of Char b0 b1 b2 b3 b4 b5 b6 b7 \<Rightarrow> Char b0 b1 b2 b3 b4 True b6 b7)
      else c)"

subsection \<open>The file system and the external libraries\<close>

text \<open>
  The file system maps a path to its node. What libheif, libjpeg and the operating
  system answer is not in this repository: they are the fields of \<open>collaborators\<close>, and
  every theorem holds for all of them. libheif's answers depend on the content of the file
  read. \<open>os_create_directories\<close> gives the success flag and the directories it made;
  \<open>create_directories\<close> keeps of them the paths that did not exist, since the call
  never changes an existing node. \<^verbatim>\<open>fopen(path, "wb")\<close> fails on a directory, truncates
  a regular file, creates a missing one. \<open>os_status_fails\<close> says that the status of a path
  cannot be read for another reason than its absence (a name that is too long, a directory
  that may not be searched): there \<^verbatim>\<open>std::filesystem::exists\<close> and
  \<^verbatim>\<open>std::filesystem::is_regular_file\<close> throw. \<open>fs_exists\<close> and
  \<open>fs_is_regular_file\<close> are what the two queries answer when they answer; the calls of
  the program, which can throw, are \<open>exists_or_throw\<close> and \<open>is_regular_file_or_throw\<close>
  further down.
\<close>

datatype node = RegularFile bytes | Directory | OtherNode

type_synonym filesystem = "path \<Rightarrow> node option"

datatype heif_handle =
    ContextAllocFailed
  | ReadFromFileFailed
  | NoPrimaryImageHandle
  | PrimaryImageHandle c_int c_int

datatype heif_decoded = DecodeFailed | NoPlaneData | DecodedRGB

record collaborators =
  heif_primary_handle :: "bytes \<Rightarrow> heif_handle"
  heif_decode_image :: "bytes \<Rightarrow> heif_decoded"
  jpeg_encode :: "bytes \<Rightarrow> c_int \<Rightarrow> bytes \<times> bool"
  os_create_directories :: "filesystem \<Rightarrow> path \<Rightarrow> bool \<times> path list"
  os_fopen_wb :: "filesystem \<Rightarrow> path \<Rightarrow> bool"
  os_status_fails :: "filesystem \<Rightarrow> path \<Rightarrow> bool"

definition fs_exists :: "filesystem \<Rightarrow> path \<Rightarrow> bool" where
  "fs_exists fs p = (fs p \<noteq> None)"

definition fs_is_regular_file :: "filesystem \<Rightarrow> path \<Rightarrow> bool" where
  "fs_is_regular_file fs p = (case fs p of Some (RegularFile c) \<Rightarrow> True | _ \<Rightarrow> False)"

definition create_directories :: "collaborators \<Rightarrow> filesystem \<Rightarrow> path \<Rightarrow> bool \<times> filesystem" where
  "create_directories cl fs p =
     (let (ok, made) = os_create_directories cl fs p
      in (ok, (\<lambda>q. if fs q = None \<and> q \<in> set made then Some Directory else fs q)))"

definition fopen_wb :: "collaborators \<Rightarrow> filesystem \<Rightarrow> path \<Rightarrow> filesystem option" where
  "fopen_wb cl fs p =
     (case fs p of
        Some Directory \<Rightarrow> None
      | Some OtherNode \<Rightarrow> if os_fopen_wb cl fs p then Some fs else None
      | _ \<Rightarrow> if os_fopen_wb cl fs p then Some (fs(p \<mapsto> RegularFile [])) else None)"

definition fwrite_all :: "filesystem \<Rightarrow> path \<Rightarrow> bytes \<Rightarrow> filesystem" where
  "fwrite_all fs p d = (case fs p of Some (RegularFile c) \<Rightarrow> fs(p \<mapsto> RegularFile d) | _ \<Rightarrow> fs)"

definition heif_open :: "collaborators \<Rightarrow> filesystem \<Rightarrow> path \<Rightarrow> heif_handle" where
  "heif_open cl fs p =
     (case fs p of Some (RegularFile c) \<Rightarrow> heif_primary_handle cl c | _ \<Rightarrow> ReadFromFileFailed)"

subsection \<open>The cost estimator\<close>

text \<open>
  \<^verbatim>\<open>estimate_memory_requirement\<close> (lines 215-259). The two products are \<^verbatim>\<open>int\<close>
  products converted to \<^verbatim>\<open>size_t\<close> afterwards: they wrap at 32 bits (the overflow is
  undefined in C++; the usual targets wrap) and are sign-extended. The sum is a
  \<^verbatim>\<open>size_t\<close> sum. It is then converted to \<^verbatim>\<open>double\<close>, multiplied by 1.5, divided
  by \<open>2 ^ 20\<close> and rounded up: \<open>double_round\<close> is IEEE 754 round-to-nearest-even to 53
  significant bits, exact below \<open>2 ^ 53\<close>; the division by a power of two and the ceiling
  are exact. \<open>ceil_mb\<close> works on twice the product, so that it stays a natural number.
  The result is below \<open>2 ^ 45\<close>, so the cast back to \<^verbatim>\<open>size_t\<close> keeps it.
\<close>

definition double_round :: "nat \<Rightarrow> nat" where
  "double_round m =
     (if m < 2 ^ 53 then m
      else let q = floorlog 2 m - 53; hi = m div 2 ^ q; lo = m mod 2 ^ q; half = 2 ^ (q - 1)
           in (if half < lo \<or> (lo = half \<and> odd hi) then hi + 1 else hi) * 2 ^ q)"

definition ceil_mb :: "nat \<Rightarrow> nat" where
  "ceil_mb n = (double_round (3 * double_round n) + 2 ^ 21 - 1) div 2 ^ 21"

definition memory_mb_of_dimensions :: "c_int \<Rightarrow> c_int \<Rightarrow> size_t" where
  "memory_mb_of_dimensions width height =
     (let rgb_memory = (scast (width * height * 3) :: size_t);
          jpeg_memory = (scast (width * height * 4) :: size_t);
          overhead_memory = (10 * 1024 * 1024 :: size_t)
      in of_nat (ceil_mb (unat (rgb_memory + jpeg_memory + overhead_memory))))"

definition estimate_memory_requirement :: "collaborators \<Rightarrow> filesystem \<Rightarrow> path \<Rightarrow> size_t" where
  "estimate_memory_requirement cl fs image_path =
     (case heif_open cl fs image_path of
        PrimaryImageHandle width height \<Rightarrow> memory_mb_of_dimensions width height
      | _ \<Rightarrow> 0)"

definition get_heif_dimensions :: "collaborators \<Rightarrow> filesystem \<Rightarrow> path \<Rightarrow> (c_int \<times> c_int) option" where
  "get_heif_dimensions cl fs image_path =
     (case heif_open cl fs image_path of
        PrimaryImageHandle width height \<Rightarrow> Some (width, height)
      | _ \<Rightarrow> None)"

subsection \<open>The state a conversion works on\<close>

text \<open>
  The state that \<^verbatim>\<open>process_file\<close> reads and writes: the file system, the three atomic
  counters it receives by reference, and the trace. The trace holds every message the
  program prints with \<^verbatim>\<open>thread_safe_print\<close> and, as ghost events, the calls the
  properties speak about, with the memory limit they receive.
\<close>

datatype message =
    Converting path path
  | Err_dimensions_exceed c_int c_int c_int c_int
  | Err_memory_exceeds size_t size_t
  | Err_context_alloc
  | Err_read_heif path
  | Err_primary_handle path
  | Err_decode path
  | Err_pixel_data path
  | Err_create_directory path
  | Created_directory path
  | Err_open_output path
  | Err_libjpeg
  | Saved path
  | Err_input_not_found path
  | Err_not_regular_file path
  | Warn_skip_non_heif path
  | Warn_output_exists path path
  | Warn_exceeds_limit path size_t size_t

datatype event =
    Call_process_file path path size_t
  | Call_convert_heif_to_jpeg path path size_t
  | Call_heif_decode_image path
  | Print message

record world =
  files :: filesystem
  success_count :: c_int
  fail_count :: c_int
  skip_count :: c_int
  trace :: "event list"

definition emit :: "event \<Rightarrow> world \<Rightarrow> world" where
  "emit e s = s\<lparr>trace := trace s @ [e]\<rparr>"

text \<open>The calls recorded in a trace, in order, with their paths and memory limit.\<close>

fun process_file_calls :: "event list \<Rightarrow> (path \<times> path \<times> size_t) list" where
  "process_file_calls [] = []"
| "process_file_calls (Call_process_file i out m # es) = (i, out, m) # process_file_calls es"
| "process_file_calls (e # es) = process_file_calls es"

fun convert_calls :: "event list \<Rightarrow> (path \<times> path \<times> size_t) list" where
  "convert_calls [] = []"
| "convert_calls (Call_convert_heif_to_jpeg i out m # es) = (i, out, m) # convert_calls es"
| "convert_calls (e # es) = convert_calls es"

fun decode_calls :: "event list \<Rightarrow> path list" where
  "decode_calls [] = []"
| "decode_calls (Call_heif_decode_image i # es) = i # decode_calls es"
| "decode_calls (e # es) = decode_calls es"

subsection \<open>The conversion\<close>

text \<open>
  \<^verbatim>\<open>convert_heif_to_jpeg\<close> (lines 283-437), cut at its sections: the dimension check
  (lines 289-300), the memory check (302-310), the decoding (312-360) and the encoding
  (362-436). Each \<^verbatim>\<open>return false\<close> of the source is a result \<open>(False, _)\<close> after the
  message printed there.
\<close>

definition dimension_violation ::
  "collaborators \<Rightarrow> filesystem \<Rightarrow> path \<Rightarrow> c_int \<Rightarrow> c_int \<Rightarrow> (c_int \<times> c_int) option" where
  "dimension_violation cl fs heif_path mw mh =
     (if 0 < sint mw \<or> 0 < sint mh then
        (case get_heif_dimensions cl fs heif_path of
           Some (width, height) \<Rightarrow>
             if (0 < sint mw \<and> sint mw < sint width) \<or> (0 < sint mh \<and> sint mh < sint height)
             then Some (width, height) else None
         | None \<Rightarrow> None)
      else None)"

definition encode_jpeg :: "collaborators \<Rightarrow> bytes \<Rightarrow> path \<Rightarrow> c_int \<Rightarrow> world \<Rightarrow> bool \<times> world" where
  "encode_jpeg cl c jpeg_path q s =
     (case fopen_wb cl (files s) jpeg_path of
        None \<Rightarrow> (False, emit (Print (Err_open_output jpeg_path)) s)
      | Some fs \<Rightarrow>
          (let (d, ok) = jpeg_encode cl c q;
               s' = s\<lparr>files := fwrite_all fs jpeg_path d\<rparr>
           in if ok then (True, emit (Print (Saved jpeg_path)) s')
              else (False, emit (Print Err_libjpeg) s')))"

definition write_output :: "collaborators \<Rightarrow> bytes \<Rightarrow> path \<Rightarrow> c_int \<Rightarrow> world \<Rightarrow> bool \<times> world" where
  "write_output cl c jpeg_path q s =
     (let output_dir = parent_path jpeg_path
      in if output_dir \<noteq> [] \<and> \<not> fs_exists (files s) output_dir then
           (case create_directories cl (files s) output_dir of
              (False, fs) \<Rightarrow> (False, emit (Print (Err_create_directory output_dir)) (s\<lparr>files := fs\<rparr>))
            | (True, fs) \<Rightarrow>
                encode_jpeg cl c jpeg_path q
                  (emit (Print (Created_directory output_dir)) (s\<lparr>files := fs\<rparr>)))
         else encode_jpeg cl c jpeg_path q s)"

definition decode_and_encode :: "collaborators \<Rightarrow> path \<Rightarrow> path \<Rightarrow> c_int \<Rightarrow> world \<Rightarrow> bool \<times> world" where
  "decode_and_encode cl heif_path jpeg_path q s =
     (case files s heif_path of
        Some (RegularFile c) \<Rightarrow>
          (case heif_primary_handle cl c of
             ContextAllocFailed \<Rightarrow> (False, emit (Print Err_context_alloc) s)
           | ReadFromFileFailed \<Rightarrow> (False, emit (Print (Err_read_heif heif_path)) s)
           | NoPrimaryImageHandle \<Rightarrow> (False, emit (Print (Err_primary_handle heif_path)) s)
           | PrimaryImageHandle width height \<Rightarrow>
               (let s1 = emit (Call_heif_decode_image heif_path) s
                in case heif_decode_image cl c of
                     DecodeFailed \<Rightarrow> (False, emit (Print (Err_decode heif_path)) s1)
                   | NoPlaneData \<Rightarrow> (False, emit (Print (Err_pixel_data heif_path)) s1)
                   | DecodedRGB \<Rightarrow> write_output cl c jpeg_path q s1))
      | _ \<Rightarrow> (False, emit (Print (Err_read_heif heif_path)) s))"

definition convert_heif_to_jpeg ::
  "collaborators \<Rightarrow> path \<Rightarrow> path \<Rightarrow> c_int \<Rightarrow> c_int \<Rightarrow> c_int \<Rightarrow> size_t \<Rightarrow> world \<Rightarrow> bool \<times> world" where
  "convert_heif_to_jpeg cl heif_path jpeg_path q mw mh max_memory_mb s0 =
     (let s = emit (Print (Converting heif_path jpeg_path))
                (emit (Call_convert_heif_to_jpeg heif_path jpeg_path max_memory_mb) s0);
          estimated_mem = estimate_memory_requirement cl (files s) heif_path
      in case dimension_violation cl (files s) heif_path mw mh of
           Some (width, height) \<Rightarrow>
             (False, emit (Print (Err_dimensions_exceed width height mw mh)) s)
         | None \<Rightarrow>
             if 0 < max_memory_mb \<and> max_memory_mb < estimated_mem
             then (False, emit (Print (Err_memory_exceeds estimated_mem max_memory_mb)) s)
             else decode_and_encode cl heif_path jpeg_path q s)"

subsection \<open>One job\<close>

text \<open>
  \<^verbatim>\<open>process_file\<close> (lines 440-477), its checks in the order of the source, when every
  status query answers.
\<close>

definition process_file ::
  "collaborators \<Rightarrow> path \<Rightarrow> path \<Rightarrow> c_int \<Rightarrow> bool \<Rightarrow> c_int \<Rightarrow> c_int \<Rightarrow> size_t \<Rightarrow> world \<Rightarrow> world" where
  "process_file cl input output q force mw mh max_memory_mb s0 =
     (let s = emit (Call_process_file input output max_memory_mb) s0;
          ext = map c_tolower (extension input)
      in if \<not> fs_exists (files s) input then
           (emit (Print (Err_input_not_found input)) s)\<lparr>fail_count := fail_count s + 1\<rparr>
         else if \<not> fs_is_regular_file (files s) input then
           (emit (Print (Err_not_regular_file input)) s)\<lparr>fail_count := fail_count s + 1\<rparr>
         else if ext \<noteq> ''.heic'' \<and> ext \<noteq> ''.heif'' then
           (emit (Print (Warn_skip_non_heif input)) s)\<lparr>skip_count := skip_count s + 1\<rparr>
         else if fs_exists (files s) output \<and> \<not> force then
           (emit (Print (Warn_output_exists output input)) s)\<lparr>skip_count := skip_count s + 1\<rparr>
         else
           (case convert_heif_to_jpeg cl input output q mw mh max_memory_mb s of
              (True, s') \<Rightarrow> s'\<lparr>success_count := success_count s' + 1\<rparr>
            | (False, s') \<Rightarrow> s'\<lparr>fail_count := fail_count s' + 1\<rparr>))"

subsection \<open>The job queue\<close>

text \<open>
  \<^verbatim>\<open>std::priority_queue<ImageJob>\<close> after the contract of the standard library:
  \<^verbatim>\<open>top()\<close> is an element that is not less than any other under \<^verbatim>\<open>operator<\<close>,
  \<^verbatim>\<open>pop()\<close> removes it. The order among equal elements is left open by the standard;
  here the earliest pushed wins. \<^verbatim>\<open>top()\<close> and \<^verbatim>\<open>pop()\<close> on an empty queue are
  undefined: \<open>None\<close>.
\<close>

fun largest :: "ImageJob \<Rightarrow> ImageJob list \<Rightarrow> ImageJob" where
  "largest b [] = b"
| "largest b (x # xs) = largest (if ImageJob_less b x then x else b) xs"

definition pq_push :: "ImageJob list \<Rightarrow> ImageJob \<Rightarrow> ImageJob list" where
  "pq_push q j = q @ [j]"

definition pq_top :: "ImageJob list \<Rightarrow> ImageJob option" where
  "pq_top q = (case q of [] \<Rightarrow> None | j # js \<Rightarrow> Some (largest j js))"

definition pq_pop :: "ImageJob list \<Rightarrow> ImageJob list option" where
  "pq_pop q = (case pq_top q of None \<Rightarrow> None | Some t \<Rightarrow> Some (remove1 t q))"

definition add_job :: "collaborators \<Rightarrow> filesystem \<Rightarrow> path \<Rightarrow> path \<Rightarrow> BatchProcessor \<Rightarrow> BatchProcessor" where
  "add_job cl fs input output bp =
     (let mem_req = estimate_memory_requirement cl fs input;
          job = \<lparr> input_path = input, output_path = output, estimated_memory_mb = mem_req \<rparr>
      in bp\<lparr>job_queue := pq_push (job_queue bp) job\<rparr>)"

subsection \<open>The worker\<close>

text \<open>
  The body of the loop of \<^verbatim>\<open>BatchProcessor::worker_thread\<close> after the job is taken
  (lines 543-559): both branches call \<^verbatim>\<open>process_file\<close> with
  \<^verbatim>\<open>memory_per_thread_mb\<close>; the first prints the warning before.
\<close>

definition worker_body :: "collaborators \<Rightarrow> BatchProcessor \<Rightarrow> ImageJob \<Rightarrow> world \<Rightarrow> world" where
  "worker_body cl bp current_job s =
     (if memory_per_thread_mb bp < estimated_memory_mb current_job then
        process_file cl (input_path current_job) (output_path current_job) (quality bp)
          (force_overwrite bp) (max_width bp) (max_height bp) (memory_per_thread_mb bp)
          (emit (Print (Warn_exceeds_limit (input_path current_job)
                   (estimated_memory_mb current_job) (memory_per_thread_mb bp))) s)
      else
        process_file cl (input_path current_job) (output_path current_job) (quality bp)
          (force_overwrite bp) (max_width bp) (max_height bp) (memory_per_thread_mb bp) s)"

subsection \<open>Status queries that throw\<close>

text \<open>
  The program calls the throwing overloads of \<^verbatim>\<open>std::filesystem::exists\<close> (lines 364, 444
  and 465) and \<^verbatim>\<open>std::filesystem::is_regular_file\<close> (line 449), and catches nothing: an
  exception leaves \<^verbatim>\<open>process_file\<close> and \<^verbatim>\<open>worker_thread\<close>, and the process ends in
  \<^verbatim>\<open>std::terminate\<close>. \<open>fs_exists\<close>, \<open>fs_is_regular_file\<close> and the functions defined so far
  are the answers and results when every status query of the call answers. The functions
  below are the same functions with the queries that throw: the result \<open>None\<close> is the
  exception that ends the process, with no counter moved by the call.
\<close>

definition exists_or_throw :: "collaborators \<Rightarrow> filesystem \<Rightarrow> path \<Rightarrow> bool option" where
  "exists_or_throw cl fs p = (if os_status_fails cl fs p then None else Some (fs_exists fs p))"

definition is_regular_file_or_throw :: "collaborators \<Rightarrow> filesystem \<Rightarrow> path \<Rightarrow> bool option" where
  "is_regular_file_or_throw cl fs p =
     (if os_status_fails cl fs p then None else Some (fs_is_regular_file fs p))"

definition write_output_or_terminate ::
  "collaborators \<Rightarrow> bytes \<Rightarrow> path \<Rightarrow> c_int \<Rightarrow> world \<Rightarrow> (bool \<times> world) option" where
  "write_output_or_terminate cl c jpeg_path q s =
     (let output_dir = parent_path jpeg_path
      in if output_dir = [] then Some (encode_jpeg cl c jpeg_path q s)
         else
           (case exists_or_throw cl (files s) output_dir of
              None \<Rightarrow> None
            | Some True \<Rightarrow> Some (encode_jpeg cl c jpeg_path q s)
            | Some False \<Rightarrow>
                (case create_directories cl (files s) output_dir of
                   (False, fs) \<Rightarrow>
                     Some (False, emit (Print (Err_create_directory output_dir)) (s\<lparr>files := fs\<rparr>))
                 | (True, fs) \<Rightarrow>
                     Some (encode_jpeg cl c jpeg_path q
                       (emit (Print (Created_directory output_dir)) (s\<lparr>files := fs\<rparr>))))))"

definition decode_and_encode_or_terminate ::
  "collaborators \<Rightarrow> path \<Rightarrow> path \<Rightarrow> c_int \<Rightarrow> world \<Rightarrow> (bool \<times> world) option" where
  "decode_and_encode_or_terminate cl heif_path jpeg_path q s =
     (case files s heif_path of
        Some (RegularFile c) \<Rightarrow>
          (case heif_primary_handle cl c of
             ContextAllocFailed \<Rightarrow> Some (False, emit (Print Err_context_alloc) s)
           | ReadFromFileFailed \<Rightarrow> Some (False, emit (Print (Err_read_heif heif_path)) s)
           | NoPrimaryImageHandle \<Rightarrow> Some (False, emit (Print (Err_primary_handle heif_path)) s)
           | PrimaryImageHandle width height \<Rightarrow>
               (let s1 = emit (Call_heif_decode_image heif_path) s
                in case heif_decode_image cl c of
                     DecodeFailed \<Rightarrow> Some (False, emit (Print (Err_decode heif_path)) s1)
                   | NoPlaneData \<Rightarrow> Some (False, emit (Print (Err_pixel_data heif_path)) s1)
                   | DecodedRGB \<Rightarrow> write_output_or_terminate cl c jpeg_path q s1))
      | _ \<Rightarrow> Some (False, emit (Print (Err_read_heif heif_path)) s))"

definition convert_heif_to_jpeg_or_terminate ::
  "collaborators \<Rightarrow> path \<Rightarrow> path \<Rightarrow> c_int \<Rightarrow> c_int \<Rightarrow> c_int \<Rightarrow> size_t \<Rightarrow> world
     \<Rightarrow> (bool \<times> world) option" where
  "convert_heif_to_jpeg_or_terminate cl heif_path jpeg_path q mw mh max_memory_mb s0 =
     (let s = emit (Print (Converting heif_path jpeg_path))
                (emit (Call_convert_heif_to_jpeg heif_path jpeg_path max_memory_mb) s0);
          estimated_mem = estimate_memory_requirement cl (files s) heif_path
      in case dimension_violation cl (files s) heif_path mw mh of
           Some (width, height) \<Rightarrow>
             Some (False, emit (Print (Err_dimensions_exceed width height mw mh)) s)
         | None \<Rightarrow>
             if 0 < max_memory_mb \<and> max_memory_mb < estimated_mem
             then Some (False, emit (Print (Err_memory_exceeds estimated_mem max_memory_mb)) s)
             else decode_and_encode_or_terminate cl heif_path jpeg_path q s)"

definition process_file_or_terminate ::
  "collaborators \<Rightarrow> path \<Rightarrow> path \<Rightarrow> c_int \<Rightarrow> bool \<Rightarrow> c_int \<Rightarrow> c_int \<Rightarrow> size_t \<Rightarrow> world
     \<Rightarrow> world option" where
  "process_file_or_terminate cl input output q force mw mh max_memory_mb s0 =
     (let s = emit (Call_process_file input output max_memory_mb) s0;
          ext = map c_tolower (extension input)
      in case exists_or_throw cl (files s) input of
           None \<Rightarrow> None
         | Some False \<Rightarrow>
             Some ((emit (Print (Err_input_not_found input)) s)\<lparr>fail_count := fail_count s + 1\<rparr>)
         | Some True \<Rightarrow>
             (case is_regular_file_or_throw cl (files s) input of
                None \<Rightarrow> None
              | Some False \<Rightarrow>
                  Some ((emit (Print (Err_not_regular_file input)) s)\<lparr>fail_count := fail_count s + 1\<rparr>)
              | Some True \<Rightarrow>
                  if ext \<noteq> ''.heic'' \<and> ext \<noteq> ''.heif'' then
                    Some ((emit (Print (Warn_skip_non_heif input)) s)\<lparr>skip_count := skip_count s + 1\<rparr>)
                  else
                    (case exists_or_throw cl (files s) output of
                       None \<Rightarrow> None
                     | Some output_exists \<Rightarrow>
                         if output_exists \<and> \<not> force then
                           Some ((emit (Print (Warn_output_exists output input)) s)
                                   \<lparr>skip_count := skip_count s + 1\<rparr>)
                         else
                           (case convert_heif_to_jpeg_or_terminate cl input output q mw mh
                                   max_memory_mb s of
                              None \<Rightarrow> None
                            | Some (True, s') \<Rightarrow> Some (s'\<lparr>success_count := success_count s' + 1\<rparr>)
                            | Some (False, s') \<Rightarrow> Some (s'\<lparr>fail_count := fail_count s' + 1\<rparr>)))))"

definition worker_body_or_terminate ::
  "collaborators \<Rightarrow> BatchProcessor \<Rightarrow> ImageJob \<Rightarrow> world \<Rightarrow> world option" where
  "worker_body_or_terminate cl bp current_job s =
     (if memory_per_thread_mb bp < estimated_memory_mb current_job then
        process_file_or_terminate cl (input_path current_job) (output_path current_job) (quality bp)
          (force_overwrite bp) (max_width bp) (max_height bp) (memory_per_thread_mb bp)
          (emit (Print (Warn_exceeds_limit (input_path current_job)
                   (estimated_memory_mb current_job) (memory_per_thread_mb bp))) s)
      else
        process_file_or_terminate cl (input_path current_job) (output_path current_job) (quality bp)
          (force_overwrite bp) (max_width bp) (max_height bp) (memory_per_thread_mb bp) s)"

text \<open>
  Where the exception arises: \<open>decodes\<close> says that the decoding section of the conversion
  succeeds, so that the conversion comes to the query of line 364; \<open>conversion_terminates\<close>
  and \<open>process_file_terminates\<close> say that a query of the call throws.
\<close>

definition decodes :: "collaborators \<Rightarrow> filesystem \<Rightarrow> path \<Rightarrow> bool" where
  "decodes cl fs heif_path =
     (case fs heif_path of
        Some (RegularFile c) \<Rightarrow>
          (case heif_primary_handle cl c of
             PrimaryImageHandle width height \<Rightarrow> heif_decode_image cl c = DecodedRGB
           | _ \<Rightarrow> False)
      | _ \<Rightarrow> False)"

definition conversion_terminates ::
  "collaborators \<Rightarrow> filesystem \<Rightarrow> path \<Rightarrow> path \<Rightarrow> c_int \<Rightarrow> c_int \<Rightarrow> size_t \<Rightarrow> bool" where
  "conversion_terminates cl fs heif_path jpeg_path mw mh max_memory_mb =
     (dimension_violation cl fs heif_path mw mh = None
      \<and> \<not> (0 < max_memory_mb \<and> max_memory_mb < estimate_memory_requirement cl fs heif_path)
      \<and> decodes cl fs heif_path
      \<and> parent_path jpeg_path \<noteq> []
      \<and> os_status_fails cl fs (parent_path jpeg_path))"

subsection \<open>The worker pool\<close>

text \<open>
  \<^verbatim>\<open>process_all\<close> (lines 513-527) starts \<^verbatim>\<open>thread_count\<close> threads that run
  \<^verbatim>\<open>worker_thread\<close> (lines 529-561) and joins them. A thread is at one of three places:
  before the locked block (\<open>Fetching\<close>), after it with its job (\<open>Holding\<close>), or
  returned. A step is the locked block of one thread (\<open>no_more_work\<close>, \<open>take_job\<close>) or
  its call of \<^verbatim>\<open>process_file\<close> (\<open>process_job\<close>), taken as one step: the counters are
  atomic, and the properties of the pool are about which counter a call increments, not about
  the order of the file operations of two calls. A call that ends in an exception ends the
  process: it is no step, and the thread never returns. The pool keeps two ghost lists: the jobs in
  the order they were taken, and the jobs whose call has returned, each with the counter
  that moved.
\<close>

datatype thread_pc = Fetching | Holding ImageJob | Returned

datatype outcome = Succeeded | Failed | Skipped

definition outcome_between :: "world \<Rightarrow> world \<Rightarrow> outcome" where
  "outcome_between s s' =
     (if fail_count s' \<noteq> fail_count s then Failed
      else if skip_count s' \<noteq> skip_count s then Skipped
      else Succeeded)"

record pool =
  processor :: BatchProcessor
  shared :: world
  threads :: "thread_pc list"
  dequeued :: "ImageJob list"
  completed :: "(ImageJob \<times> outcome) list"

inductive worker_step :: "collaborators \<Rightarrow> pool \<Rightarrow> pool \<Rightarrow> bool" for cl :: collaborators where
  no_more_work:
    "\<lbrakk> i < length (threads p); threads p ! i = Fetching; job_queue (processor p) = [] \<rbrakk>
     \<Longrightarrow> worker_step cl p (p\<lparr>threads := (threads p)[i := Returned]\<rparr>)"
| take_job:
    "\<lbrakk> i < length (threads p); threads p ! i = Fetching;
       pq_top (job_queue (processor p)) = Some j; pq_pop (job_queue (processor p)) = Some q' \<rbrakk>
     \<Longrightarrow> worker_step cl p
           (p\<lparr>processor := (processor p)\<lparr>job_queue := q'\<rparr>,
              threads := (threads p)[i := Holding j],
              dequeued := dequeued p @ [j]\<rparr>)"
| process_job:
    "\<lbrakk> i < length (threads p); threads p ! i = Holding j;
       worker_body_or_terminate cl (processor p) j (shared p) = Some s' \<rbrakk>
     \<Longrightarrow> worker_step cl p
           (p\<lparr>shared := s',
              threads := (threads p)[i := Fetching],
              completed := completed p @ [(j, outcome_between (shared p) s')]\<rparr>)"

definition process_all_start :: "BatchProcessor \<Rightarrow> world \<Rightarrow> pool" where
  "process_all_start bp s =
     \<lparr> processor = bp, shared = s, threads = replicate (unat (thread_count bp)) Fetching,
       dequeued = [], completed = [] \<rparr>"

definition process_all_returned :: "pool \<Rightarrow> bool" where
  "process_all_returned p = (threads p = replicate (length (threads p)) Returned)"

definition process_all_run :: "collaborators \<Rightarrow> BatchProcessor \<Rightarrow> world \<Rightarrow> pool \<Rightarrow> bool" where
  "process_all_run cl bp s p =
     ((worker_step cl)\<^sup>*\<^sup>* (process_all_start bp s) p \<and> process_all_returned p)"

text \<open>
  The loop of one thread that runs alone, as a function: the schedule of a pool with
  \<^verbatim>\<open>thread_count = 1\<close>. It returns the state when the queue is empty; \<open>None\<close> is the
  exception that ends the process.
\<close>

function worker_thread :: "collaborators \<Rightarrow> BatchProcessor \<Rightarrow> world \<Rightarrow> world option" where
  "worker_thread cl bp s =
     (case pq_top (job_queue bp) of
        None \<Rightarrow> Some s
      | Some current_job \<Rightarrow>
          (case worker_body_or_terminate cl bp current_job s of
             None \<Rightarrow> None
           | Some s' \<Rightarrow>
               worker_thread cl (bp\<lparr>job_queue := remove1 current_job (job_queue bp)\<rparr>) s'))"
  by pat_completeness auto

lemma largest_in: "largest b xs \<in> set (b # xs)"
  by (induction xs arbitrary: b) auto

lemma pq_top_in: "pq_top q = Some j \<Longrightarrow> j \<in> set q"
  using largest_in by (auto simp: pq_top_def split: list.splits)

lemma length_remove1_less: "j \<in> set q \<Longrightarrow> length (remove1 j q) < length q"
proof -
  assume j: "j \<in> set q"
  then have "0 < length q" by (cases q) auto
  with j show ?thesis by (simp add: length_remove1)
qed

termination worker_thread
proof (relation "measure (\<lambda>(cl, bp, s). length (job_queue bp))")
  show "wf (measure (\<lambda>(cl, bp, s). length (job_queue bp)))" by simp
next
  fix cl :: collaborators and bp :: BatchProcessor and s :: world and j and s' :: world
  assume "pq_top (job_queue bp) = Some j"
  then have "j \<in> set (job_queue bp)" by (rule pq_top_in)
  then have "length (remove1 j (job_queue bp)) < length (job_queue bp)"
    by (rule length_remove1_less)
  then show "((cl, bp\<lparr>job_queue := remove1 j (job_queue bp)\<rparr>, s'), cl, bp, s)
        \<in> measure (\<lambda>(cl, bp, s). length (job_queue bp))"
    by simp
qed

text \<open>
  The jobs that threads hold, the checks of \<^verbatim>\<open>process_file\<close> before the conversion, and
  the calls of \<^verbatim>\<open>process_file\<close> in which a status query throws.
\<close>

fun held :: "thread_pc list \<Rightarrow> ImageJob list" where
  "held [] = []"
| "held (Holding j # ts) = j # held ts"
| "held (t # ts) = held ts"

definition recognized_type :: "path \<Rightarrow> bool" where
  "recognized_type input =
     (map c_tolower (extension input) = ''.heic'' \<or> map c_tolower (extension input) = ''.heif'')"

definition reaches_conversion :: "filesystem \<Rightarrow> path \<Rightarrow> path \<Rightarrow> bool \<Rightarrow> bool" where
  "reaches_conversion fs input output force =
     (fs_exists fs input \<and> fs_is_regular_file fs input \<and> recognized_type input
      \<and> \<not> (fs_exists fs output \<and> \<not> force))"

text \<open>
  \<open>converts\<close>: every stage of the conversion passes, which are the dimension check, the
  memory check, the decoding, the creation of the output directory when it is missing, the
  opening of the output file and the encoding.
\<close>

definition converts ::
  "collaborators \<Rightarrow> filesystem \<Rightarrow> path \<Rightarrow> path \<Rightarrow> c_int \<Rightarrow> c_int \<Rightarrow> c_int \<Rightarrow> size_t \<Rightarrow> bool" where
  "converts cl fs heif_path jpeg_path q mw mh max_memory_mb =
     (dimension_violation cl fs heif_path mw mh = None
      \<and> \<not> (0 < max_memory_mb \<and> max_memory_mb < estimate_memory_requirement cl fs heif_path)
      \<and> decodes cl fs heif_path
      \<and> (if parent_path jpeg_path \<noteq> [] \<and> \<not> fs_exists fs (parent_path jpeg_path)
         then fst (create_directories cl fs (parent_path jpeg_path))
            \<and> fopen_wb cl (snd (create_directories cl fs (parent_path jpeg_path))) jpeg_path \<noteq> None
         else fopen_wb cl fs jpeg_path \<noteq> None)
      \<and> (case fs heif_path of Some (RegularFile c) \<Rightarrow> snd (jpeg_encode cl c q) | _ \<Rightarrow> False))"

definition process_file_terminates ::
  "collaborators \<Rightarrow> filesystem \<Rightarrow> path \<Rightarrow> path \<Rightarrow> bool \<Rightarrow> c_int \<Rightarrow> c_int \<Rightarrow> size_t \<Rightarrow> bool" where
  "process_file_terminates cl fs input output force mw mh max_memory_mb =
     (os_status_fails cl fs input
      \<or> (fs_exists fs input \<and> fs_is_regular_file fs input \<and> recognized_type input
          \<and> (os_status_fails cl fs output
              \<or> (reaches_conversion fs input output force
                  \<and> conversion_terminates cl fs input output mw mh max_memory_mb))))"

text \<open>The tail of \<^verbatim>\<open>main\<close> (line 807): the exit code after \<^verbatim>\<open>process_all\<close>.\<close>

definition main_exit_code :: "world \<Rightarrow> c_int" where
  "main_exit_code s = (if 0 < sint (fail_count s) then 1 else 0)"

subsection \<open>Notions used in the statements and proofs\<close>

text \<open>
  \<open>tally oc s s'\<close>: from \<open>s\<close> to \<open>s'\<close> the counter of the outcome \<open>oc\<close> went up by one and
  the two others stayed. \<open>quiet\<close>: the counters stayed and the trace grew by events that
  are no call of \<^verbatim>\<open>process_file\<close> or \<^verbatim>\<open>convert_heif_to_jpeg\<close>. \<open>keeps_others\<close>: every
  node but the one at the output path is still there. \<open>same_settings\<close>: two processors
  differ in their queue at most. \<open>count_outcome\<close> counts the completed jobs with an outcome.
  The remaining predicates are the invariants of the pool.
\<close>

definition quiet :: "world \<Rightarrow> world \<Rightarrow> bool" where
  "quiet s s' =
     (success_count s' = success_count s \<and> fail_count s' = fail_count s
      \<and> skip_count s' = skip_count s
      \<and> (\<exists>es. trace s' = trace s @ es \<and> process_file_calls es = [] \<and> convert_calls es = []))"

definition keeps_others :: "path \<Rightarrow> filesystem \<Rightarrow> filesystem \<Rightarrow> bool" where
  "keeps_others out fs fs' = (\<forall>x n. x \<noteq> out \<longrightarrow> fs x = Some n \<longrightarrow> fs' x = Some n)"

definition tally :: "outcome \<Rightarrow> world \<Rightarrow> world \<Rightarrow> bool" where
  "tally oc s s' =
     (success_count s' = success_count s + (if oc = Succeeded then 1 else 0)
      \<and> fail_count s' = fail_count s + (if oc = Failed then 1 else 0)
      \<and> skip_count s' = skip_count s + (if oc = Skipped then 1 else 0))"

definition same_settings :: "BatchProcessor \<Rightarrow> BatchProcessor \<Rightarrow> bool" where
  "same_settings a b =
     (quality a = quality b \<and> force_overwrite a = force_overwrite b \<and> max_width a = max_width b
      \<and> max_height a = max_height b \<and> memory_per_thread_mb a = memory_per_thread_mb b
      \<and> thread_count a = thread_count b)"

definition jobs_inv :: "BatchProcessor \<Rightarrow> pool \<Rightarrow> bool" where
  "jobs_inv bp p =
     (same_settings (processor p) bp
      \<and> length (threads p) = unat (thread_count bp)
      \<and> mset (map fst (completed p)) + mset (held (threads p)) + mset (job_queue (processor p))
          = mset (job_queue bp)
      \<and> (Returned \<in> set (threads p) \<longrightarrow> job_queue (processor p) = []))"

definition count_outcome :: "outcome \<Rightarrow> (ImageJob \<times> outcome) list \<Rightarrow> nat" where
  "count_outcome oc cs = length (filter (\<lambda>c. snd c = oc) cs)"

definition counters_inv :: "BatchProcessor \<Rightarrow> world \<Rightarrow> pool \<Rightarrow> bool" where
  "counters_inv bp s p =
     (same_settings (processor p) bp
      \<and> success_count (shared p) = success_count s + of_nat (count_outcome Succeeded (completed p))
      \<and> fail_count (shared p) = fail_count s + of_nat (count_outcome Failed (completed p))
      \<and> skip_count (shared p) = skip_count s + of_nat (count_outcome Skipped (completed p))
      \<and> process_file_calls (trace (shared p))
          = process_file_calls (trace s)
            @ map (\<lambda>c. (input_path (fst c), output_path (fst c), memory_per_thread_mb bp)) (completed p))"

definition order_inv :: "pool \<Rightarrow> bool" where
  "order_inv p =
     (sorted (map estimated_memory_mb (dequeued p))
      \<and> (\<forall>d \<in> set (dequeued p). \<forall>x \<in> set (job_queue (processor p)).
            estimated_memory_mb d \<le> estimated_memory_mb x))"

definition dequeued_inv :: "BatchProcessor \<Rightarrow> pool \<Rightarrow> bool" where
  "dequeued_inv bp p = (mset (dequeued p) + mset (job_queue (processor p)) = mset (job_queue bp))"

definition files_inv :: "world \<Rightarrow> pool \<Rightarrow> bool" where
  "files_inv s p =
     ((\<forall>x n. files s x = Some n \<longrightarrow> files (shared p) x = Some n)
      \<and> (\<forall>c \<in> set (completed p).
            fs_is_regular_file (files s) (input_path (fst c)) \<and> fs_exists (files s) (output_path (fst c))
            \<longrightarrow> snd c = Skipped))"

text \<open>
  \<open>remaining_work\<close> bounds the number of steps a pool can still take: three for a queued
  job, two for a job a thread holds, one for a thread that has not returned.
\<close>

fun thread_weight :: "thread_pc \<Rightarrow> nat" where
  "thread_weight Fetching = 1"
| "thread_weight (Holding j) = 2"
| "thread_weight Returned = 0"

definition remaining_work :: "pool \<Rightarrow> nat" where
  "remaining_work p = 3 * length (job_queue (processor p)) + sum_list (map thread_weight (threads p))"

subsection \<open>A small world for the examples\<close>

text \<open>
  Two HEIC files and one JPEG: \<^verbatim>\<open>a.heic\<close> holds an image of 4032 x 3024 pixels,
  \<^verbatim>\<open>b.heic\<close> one of 640 x 480, and \<^verbatim>\<open>b.jpg\<close> exists already. The libraries
  decode and encode everything, the operating system refuses nothing. The processor is the one
  that \<^verbatim>\<open>main\<close> builds for a budget of 0 and one thread, with a job for each HEIC file.
\<close>

definition demo_collaborators :: collaborators where
  "demo_collaborators =
     \<lparr> heif_primary_handle =
         (\<lambda>c. if c = [1] then PrimaryImageHandle 4032 3024
              else if c = [2] then PrimaryImageHandle 640 480 else ReadFromFileFailed),
       heif_decode_image = (\<lambda>c. DecodedRGB),
       jpeg_encode = (\<lambda>c q. ([255, 216], True)),
       os_create_directories = (\<lambda>fs p. (True, [p])),
       os_fopen_wb = (\<lambda>fs p. True),
       os_status_fails = (\<lambda>fs p. False) \<rparr>"

definition demo_files :: filesystem where
  "demo_files = [''a.heic'' \<mapsto> RegularFile [1], ''b.heic'' \<mapsto> RegularFile [2],
                 ''b.jpg'' \<mapsto> RegularFile [9]]"

definition demo_world :: world where
  "demo_world = \<lparr> files = demo_files, success_count = 0, fail_count = 0, skip_count = 0, trace = [] \<rparr>"

definition demo_job_a :: ImageJob where
  "demo_job_a = \<lparr> input_path = ''a.heic'', output_path = ''a.jpg'', estimated_memory_mb = 138 \<rparr>"

definition demo_job_b :: ImageJob where
  "demo_job_b = \<lparr> input_path = ''b.heic'', output_path = ''b.jpg'', estimated_memory_mb = 19 \<rparr>"

definition demo_processor :: BatchProcessor where
  "demo_processor =
     \<lparr> job_queue = [demo_job_a, demo_job_b], quality = 95, force_overwrite = False,
       max_width = 0, max_height = 0, memory_per_thread_mb = 100, thread_count = 1 \<rparr>"

definition demo_job_c :: ImageJob where
  "demo_job_c = \<lparr> input_path = ''a.heic'', output_path = ''b.jpg'', estimated_memory_mb = 138 \<rparr>"

definition demo_job_missing :: ImageJob where
  "demo_job_missing = \<lparr> input_path = ''missing.heic'', output_path = ''b.jpg'', estimated_memory_mb = 0 \<rparr>"

section \<open>Theorems\<close>

subsection \<open>The job queue\<close>

lemma largest_le: "estimated_memory_mb (largest b xs) \<le> estimated_memory_mb b"
proof (induction xs arbitrary: b)
  case Nil then show ?case by simp
next
  case (Cons a xs)
  show ?case
  proof (cases "ImageJob_less b a")
    case True
    then have "estimated_memory_mb a \<le> estimated_memory_mb b" by (simp add: ImageJob_less_def)
    with Cons [of a] True show ?thesis by (auto intro: order_trans)
  next
    case False
    with Cons [of b] show ?thesis by simp
  qed
qed

lemma largest_min: "x \<in> set (b # xs) \<Longrightarrow> estimated_memory_mb (largest b xs) \<le> estimated_memory_mb x"
proof (induction xs arbitrary: b)
  case Nil then show ?case by simp
next
  case (Cons a xs)
  let ?b = "if ImageJob_less b a then a else b"
  have b': "estimated_memory_mb ?b \<le> estimated_memory_mb b" "estimated_memory_mb ?b \<le> estimated_memory_mb a"
    by (auto simp: ImageJob_less_def)
  from Cons.prems consider "x = b" | "x = a" | "x \<in> set xs" by auto
  then show ?case
  proof cases
    case 1 then show ?thesis using largest_le [of ?b xs] b'(1) by (auto intro: order_trans)
  next
    case 2 then show ?thesis using largest_le [of ?b xs] b'(2) by (auto intro: order_trans)
  next
    case 3 then show ?thesis using Cons.IH [of ?b] by simp
  qed
qed

lemma pq_top_min: "pq_top q = Some j \<Longrightarrow> x \<in> set q \<Longrightarrow> estimated_memory_mb j \<le> estimated_memory_mb x"
  using largest_min by (auto simp: pq_top_def split: list.splits)

lemma pq_pop_mset: "pq_top q = Some j \<Longrightarrow> pq_pop q = Some q' \<Longrightarrow> mset q = add_mset j (mset q')"
  using pq_top_in [of q j] by (auto simp: pq_pop_def)

subsection \<open>One call of \<^verbatim>\<open>process_file\<close>\<close>

lemma emit_fields [simp]:
  "files (emit e s) = files s" "success_count (emit e s) = success_count s"
  "fail_count (emit e s) = fail_count s" "skip_count (emit e s) = skip_count s"
  "trace (emit e s) = trace s @ [e]"
  by (simp_all add: emit_def)

lemma process_file_calls_append [simp]:
  "process_file_calls (a @ b) = process_file_calls a @ process_file_calls b"
  by (induction a rule: process_file_calls.induct) simp_all

lemma convert_calls_append [simp]:
  "convert_calls (a @ b) = convert_calls a @ convert_calls b"
  by (induction a rule: convert_calls.induct) simp_all

lemma decode_calls_append [simp]:
  "decode_calls (a @ b) = decode_calls a @ decode_calls b"
  by (induction a rule: decode_calls.induct) simp_all

lemma calls_prints [simp]:
  "process_file_calls (map Print ms) = []" "convert_calls (map Print ms) = []"
  "decode_calls (map Print ms) = []"
  by (induction ms) simp_all

lemma quiet_refl: "quiet s s"
  by (simp add: quiet_def)

lemma quiet_print: "quiet s s' \<Longrightarrow> quiet s (emit (Print m) s')"
  unfolding quiet_def by auto

lemma quiet_decode: "quiet s s' \<Longrightarrow> quiet s (emit (Call_heif_decode_image p) s')"
  unfolding quiet_def by auto

lemma quiet_files: "quiet s s' \<Longrightarrow> quiet s (s'\<lparr>files := fs\<rparr>)"
  by (simp add: quiet_def)

lemma quiet_trans: "quiet a b \<Longrightarrow> quiet b c \<Longrightarrow> quiet a c"
  unfolding quiet_def by auto

lemmas quiet_intros = quiet_refl quiet_print quiet_decode quiet_files

lemma encode_jpeg_quiet: "quiet s s1 \<Longrightarrow> quiet s (snd (encode_jpeg cl c p q s1))"
  by (auto simp: encode_jpeg_def Let_def split: option.splits prod.splits intro!: quiet_intros)

lemma write_output_quiet: "quiet s s1 \<Longrightarrow> quiet s (snd (write_output cl c p q s1))"
  by (auto simp: write_output_def Let_def split: prod.splits bool.splits
       intro!: quiet_intros encode_jpeg_quiet)

lemma decode_and_encode_quiet: "quiet s s1 \<Longrightarrow> quiet s (snd (decode_and_encode cl i p q s1))"
  by (auto simp: decode_and_encode_def Let_def
       split: option.splits node.splits heif_handle.splits heif_decoded.splits
       intro!: quiet_intros write_output_quiet)

lemma keeps_others_refl: "keeps_others out fs fs"
  by (simp add: keeps_others_def)

lemma keeps_others_trans: "keeps_others out a b \<Longrightarrow> keeps_others out b c \<Longrightarrow> keeps_others out a c"
  by (simp add: keeps_others_def)

lemma create_directories_keeps:
  "keeps_others out fs0 fs \<Longrightarrow> create_directories cl fs p = (ok, fs') \<Longrightarrow> keeps_others out fs0 fs'"
  by (auto simp: create_directories_def keeps_others_def split: prod.splits)

lemma fopen_wb_keeps:
  "keeps_others p fs0 fs \<Longrightarrow> fopen_wb cl fs p = Some fs' \<Longrightarrow> keeps_others p fs0 fs'"
  by (auto simp: fopen_wb_def keeps_others_def split: option.splits node.splits if_splits)

lemma fwrite_all_keeps: "keeps_others p fs0 fs \<Longrightarrow> keeps_others p fs0 (fwrite_all fs p d)"
  by (auto simp: fwrite_all_def keeps_others_def split: option.splits node.splits)

lemma encode_jpeg_keeps:
  "keeps_others p fs0 (files s) \<Longrightarrow> keeps_others p fs0 (files (snd (encode_jpeg cl c p q s)))"
  by (auto simp: encode_jpeg_def Let_def split: option.splits prod.splits
      intro!: fwrite_all_keeps elim: fopen_wb_keeps)

lemma write_output_keeps:
  "keeps_others p fs0 (files s) \<Longrightarrow> keeps_others p fs0 (files (snd (write_output cl c p q s)))"
  by (auto simp: write_output_def Let_def split: prod.splits bool.splits
      intro!: encode_jpeg_keeps elim: create_directories_keeps)

lemma decode_and_encode_keeps:
  "keeps_others p fs0 (files s) \<Longrightarrow> keeps_others p fs0 (files (snd (decode_and_encode cl i p q s)))"
  by (auto simp: decode_and_encode_def Let_def
       split: option.splits node.splits heif_handle.splits heif_decoded.splits
       intro!: write_output_keeps)

lemma convert_keeps:
  "keeps_others p (files s) (files (snd (convert_heif_to_jpeg cl i p q mw mh mm s)))"
  by (auto simp: convert_heif_to_jpeg_def Let_def split: option.splits prod.splits
       intro!: decode_and_encode_keeps keeps_others_refl)

lemma convert_quiet:
  "\<exists>es. trace (snd (convert_heif_to_jpeg cl i p q mw mh mm s))
           = trace s @ Call_convert_heif_to_jpeg i p mm # es
        \<and> process_file_calls es = [] \<and> convert_calls es = []"
  "success_count (snd (convert_heif_to_jpeg cl i p q mw mh mm s)) = success_count s"
  "fail_count (snd (convert_heif_to_jpeg cl i p q mw mh mm s)) = fail_count s"
  "skip_count (snd (convert_heif_to_jpeg cl i p q mw mh mm s)) = skip_count s"
proof -
  let ?s1 = "emit (Print (Converting i p)) (emit (Call_convert_heif_to_jpeg i p mm) s)"
  have "quiet ?s1 (snd (convert_heif_to_jpeg cl i p q mw mh mm s))"
    by (auto simp: convert_heif_to_jpeg_def Let_def split: option.splits prod.splits
        intro!: quiet_intros decode_and_encode_quiet)
  then show "\<exists>es. trace (snd (convert_heif_to_jpeg cl i p q mw mh mm s))
           = trace s @ Call_convert_heif_to_jpeg i p mm # es
        \<and> process_file_calls es = [] \<and> convert_calls es = []"
   and "success_count (snd (convert_heif_to_jpeg cl i p q mw mh mm s)) = success_count s"
   and "fail_count (snd (convert_heif_to_jpeg cl i p q mw mh mm s)) = fail_count s"
   and "skip_count (snd (convert_heif_to_jpeg cl i p q mw mh mm s)) = skip_count s"
    by (auto simp: quiet_def)
qed

lemma word_succ_neq [simp]: "(c :: c_int) + 1 \<noteq> c"
  by simp

lemma tally_outcome: "tally oc s s' \<Longrightarrow> outcome_between s s' = oc"
  by (cases oc) (auto simp: tally_def outcome_between_def)

lemma process_file_not_found:
  assumes "\<not> fs_exists (files s) i \<or> \<not> fs_is_regular_file (files s) i"
  shows "tally Failed s (process_file cl i out q force mw mh mm s)"
    and "files (process_file cl i out q force mw mh mm s) = files s"
    and "\<exists>m. trace (process_file cl i out q force mw mh mm s)
           = trace s @ [Call_process_file i out mm, Print m]"
  using assms by (auto simp: process_file_def Let_def tally_def)

lemma process_file_skip:
  assumes "fs_exists (files s) i" "fs_is_regular_file (files s) i"
    and "\<not> recognized_type i \<or> (fs_exists (files s) out \<and> \<not> force)"
  shows "tally Skipped s (process_file cl i out q force mw mh mm s)"
    and "files (process_file cl i out q force mw mh mm s) = files s"
    and "\<exists>m. trace (process_file cl i out q force mw mh mm s)
           = trace s @ [Call_process_file i out mm, Print m]"
  using assms by (auto simp: process_file_def Let_def tally_def recognized_type_def)

lemma process_file_convert:
  assumes "reaches_conversion (files s) i out force"
    and "r = convert_heif_to_jpeg cl i out q mw mh mm (emit (Call_process_file i out mm) s)"
  shows "tally (if fst r then Succeeded else Failed) s (process_file cl i out q force mw mh mm s)"
    and "files (process_file cl i out q force mw mh mm s) = files (snd r)"
    and "trace (process_file cl i out q force mw mh mm s) = trace (snd r)"
proof -
  have pf: "process_file cl i out q force mw mh mm s =
        (if fst r then (snd r)\<lparr>success_count := success_count (snd r) + 1\<rparr>
         else (snd r)\<lparr>fail_count := fail_count (snd r) + 1\<rparr>)"
    using assms
    by (auto simp: process_file_def Let_def reaches_conversion_def recognized_type_def
          split: prod.splits bool.splits)
  show "tally (if fst r then Succeeded else Failed) s (process_file cl i out q force mw mh mm s)"
    unfolding pf assms(2) by (simp add: tally_def convert_quiet(2-4))
  show "files (process_file cl i out q force mw mh mm s) = files (snd r)"
    unfolding pf by simp
  show "trace (process_file cl i out q force mw mh mm s) = trace (snd r)"
    unfolding pf by simp
qed

lemma process_file_cases:
  obtains (not_found) "\<not> fs_exists fs i \<or> \<not> fs_is_regular_file fs i"
  | (skip) "fs_exists fs i" "fs_is_regular_file fs i"
           "\<not> recognized_type i \<or> (fs_exists fs out \<and> \<not> force)"
  | (conv) "reaches_conversion fs i out force"
  by (auto simp: reaches_conversion_def)

lemma process_file_tally:
  "tally (outcome_between s (process_file cl i out q force mw mh mm s)) s
     (process_file cl i out q force mw mh mm s)"
proof (cases rule: process_file_cases [where fs = "files s" and i = i and out = out and force = force])
  case not_found
  from process_file_not_found(1) [OF this] show ?thesis
    using tally_outcome by metis
next
  case skip
  from process_file_skip(1) [OF this] show ?thesis
    using tally_outcome by metis
next
  case conv
  from process_file_convert(1) [OF this refl] show ?thesis
    using tally_outcome by metis
qed

lemma process_file_trace:
  "\<exists>es. trace (process_file cl i out q force mw mh mm s) = trace s @ Call_process_file i out mm # es
      \<and> process_file_calls es = []
      \<and> convert_calls es = (if reaches_conversion (files s) i out force then [(i, out, mm)] else [])"
proof (cases rule: process_file_cases [where fs = "files s" and i = i and out = out and force = force])
  case not_found
  from process_file_not_found(3) [OF this, of cl out q force mw mh mm] not_found show ?thesis
    by (auto simp: reaches_conversion_def)
next
  case skip
  from process_file_skip(3) [OF this, of cl q mw mh mm] skip show ?thesis
    by (auto simp: reaches_conversion_def)
next
  case conv
  from process_file_convert(3) [OF this refl, of cl q mw mh mm]
    convert_quiet(1) [of cl i out q mw mh mm "emit (Call_process_file i out mm) s"] conv
  show ?thesis by auto
qed

subsection \<open>The body of the worker loop\<close>

lemma worker_body_eq:
  "\<exists>pre. worker_body cl bp j s
      = process_file cl (input_path j) (output_path j) (quality bp) (force_overwrite bp)
          (max_width bp) (max_height bp) (memory_per_thread_mb bp) (s\<lparr>trace := trace s @ map Print pre\<rparr>)
     \<and> pre = (if memory_per_thread_mb bp < estimated_memory_mb j
              then [Warn_exceeds_limit (input_path j) (estimated_memory_mb j) (memory_per_thread_mb bp)]
              else [])"
  by (simp add: worker_body_def emit_def)

lemma tally_shift: "tally oc (s\<lparr>trace := t\<rparr>) s' = tally oc s s'"
  by (simp add: tally_def)

lemma outcome_shift: "outcome_between (s\<lparr>trace := t\<rparr>) s' = outcome_between s s'"
  by (simp add: outcome_between_def)

lemma worker_body_tally:
  "tally (outcome_between s (worker_body cl bp j s)) s (worker_body cl bp j s)"
proof -
  obtain pre where "worker_body cl bp j s
      = process_file cl (input_path j) (output_path j) (quality bp) (force_overwrite bp)
          (max_width bp) (max_height bp) (memory_per_thread_mb bp) (s\<lparr>trace := trace s @ map Print pre\<rparr>)"
    using worker_body_eq by blast
  then show ?thesis
    using process_file_tally [of "s\<lparr>trace := trace s @ map Print pre\<rparr>" cl "input_path j" "output_path j"
         "quality bp" "force_overwrite bp" "max_width bp" "max_height bp" "memory_per_thread_mb bp"]
    by (simp add: tally_shift outcome_shift)
qed

lemma worker_body_trace:
  "\<exists>pre es. trace (worker_body cl bp j s)
        = trace s @ map Print pre @ Call_process_file (input_path j) (output_path j) (memory_per_thread_mb bp) # es
      \<and> pre = (if memory_per_thread_mb bp < estimated_memory_mb j
              then [Warn_exceeds_limit (input_path j) (estimated_memory_mb j) (memory_per_thread_mb bp)]
              else [])
      \<and> process_file_calls es = []
      \<and> convert_calls es = (if reaches_conversion (files s) (input_path j) (output_path j) (force_overwrite bp)
                             then [(input_path j, output_path j, memory_per_thread_mb bp)] else [])"
proof -
  obtain pre where pre: "worker_body cl bp j s
      = process_file cl (input_path j) (output_path j) (quality bp) (force_overwrite bp)
          (max_width bp) (max_height bp) (memory_per_thread_mb bp) (s\<lparr>trace := trace s @ map Print pre\<rparr>)"
     "pre = (if memory_per_thread_mb bp < estimated_memory_mb j
              then [Warn_exceeds_limit (input_path j) (estimated_memory_mb j) (memory_per_thread_mb bp)]
              else [])"
    using worker_body_eq by blast
  from process_file_trace [of cl "input_path j" "output_path j"
         "quality bp" "force_overwrite bp" "max_width bp" "max_height bp" "memory_per_thread_mb bp"
         "s\<lparr>trace := trace s @ map Print pre\<rparr>"]
  show ?thesis unfolding pre(1) using pre(2) by auto
qed

lemma worker_body_calls:
  "process_file_calls (trace (worker_body cl bp j s))
     = process_file_calls (trace s) @ [(input_path j, output_path j, memory_per_thread_mb bp)]"
  using worker_body_trace [of cl bp j s] by auto

lemma process_file_keeps:
  assumes "\<not> force" "files s x = Some n"
  shows "files (process_file cl i out q force mw mh mm s) x = Some n"
proof (cases rule: process_file_cases [where fs = "files s" and i = i and out = out and force = force])
  case not_found
  then show ?thesis using assms process_file_not_found(2) by metis
next
  case skip
  then show ?thesis using assms process_file_skip(2) by metis
next
  case conv
  then have "files s out = None" using assms(1) by (simp add: reaches_conversion_def fs_exists_def)
  then have "x \<noteq> out" using assms(2) by auto
  moreover have "keeps_others out (files s)
     (files (snd (convert_heif_to_jpeg cl i out q mw mh mm (emit (Call_process_file i out mm) s))))"
    using convert_keeps [of out "emit (Call_process_file i out mm) s"] by simp
  ultimately show ?thesis
    using process_file_convert(2) [OF conv refl, of cl q mw mh mm] assms(2)
    by (simp add: keeps_others_def)
qed

lemma worker_body_keeps:
  assumes "\<not> force_overwrite bp" "files s x = Some n"
  shows "files (worker_body cl bp j s) x = Some n"
  using assms by (simp add: worker_body_def process_file_keeps)

lemma worker_body_skips:
  assumes "\<not> force_overwrite bp" "fs_is_regular_file (files s) (input_path j)"
    "fs_exists (files s) (output_path j)"
  shows "outcome_between s (worker_body cl bp j s) = Skipped"
    and "files (worker_body cl bp j s) = files s"
    and "convert_calls (trace (worker_body cl bp j s)) = convert_calls (trace s)"
proof -
  have ex: "fs_exists (files s) (input_path j)"
    using assms(2) by (auto simp: fs_exists_def fs_is_regular_file_def split: option.splits)
  obtain pre where pre: "worker_body cl bp j s
      = process_file cl (input_path j) (output_path j) (quality bp) (force_overwrite bp)
          (max_width bp) (max_height bp) (memory_per_thread_mb bp) (s\<lparr>trace := trace s @ map Print pre\<rparr>)"
    using worker_body_eq by blast
  let ?s = "s\<lparr>trace := trace s @ map Print pre\<rparr>"
  have a: "fs_exists (files ?s) (input_path j)" "fs_is_regular_file (files ?s) (input_path j)"
     "\<not> recognized_type (input_path j) \<or> (fs_exists (files ?s) (output_path j) \<and> \<not> force_overwrite bp)"
    using ex assms by simp_all
  from process_file_skip(1) [OF a] have "tally Skipped s (worker_body cl bp j s)"
    unfolding pre by (simp add: tally_shift)
  then show "outcome_between s (worker_body cl bp j s) = Skipped" by (rule tally_outcome)
  from process_file_skip(2) [OF a] show "files (worker_body cl bp j s) = files s"
    unfolding pre by simp
  from process_file_skip(3) [OF a, of cl "quality bp" "max_width bp" "max_height bp" "memory_per_thread_mb bp"]
  show "convert_calls (trace (worker_body cl bp j s)) = convert_calls (trace s)"
    unfolding pre by auto
qed

subsection \<open>Calls in which a status query throws\<close>

lemma write_output_or_terminate_eq:
  "write_output_or_terminate cl c p q s =
     (if parent_path p \<noteq> [] \<and> os_status_fails cl (files s) (parent_path p) then None
      else Some (write_output cl c p q s))"
  by (auto simp: write_output_or_terminate_def write_output_def exists_or_throw_def Let_def
           split: prod.splits bool.splits)

lemma decode_and_encode_or_terminate_eq:
  "decode_and_encode_or_terminate cl i p q s =
     (if decodes cl (files s) i \<and> parent_path p \<noteq> [] \<and> os_status_fails cl (files s) (parent_path p)
      then None else Some (decode_and_encode cl i p q s))"
  by (simp add: decode_and_encode_or_terminate_def decode_and_encode_def decodes_def Let_def
        write_output_or_terminate_eq
      split: option.splits node.splits heif_handle.splits heif_decoded.splits)

lemma convert_or_terminate_eq:
  "convert_heif_to_jpeg_or_terminate cl i p q mw mh mm s =
     (if conversion_terminates cl (files s) i p mw mh mm then None
      else Some (convert_heif_to_jpeg cl i p q mw mh mm s))"
  by (auto simp: convert_heif_to_jpeg_or_terminate_def convert_heif_to_jpeg_def
        conversion_terminates_def Let_def decode_and_encode_or_terminate_eq
      split: option.splits prod.splits)

lemma process_file_or_terminate_eq:
  "process_file_or_terminate cl i out q force mw mh mm s =
     (if process_file_terminates cl (files s) i out force mw mh mm then None
      else Some (process_file cl i out q force mw mh mm s))"
  by (auto simp: process_file_or_terminate_def process_file_def process_file_terminates_def
        reaches_conversion_def recognized_type_def exists_or_throw_def is_regular_file_or_throw_def
        Let_def convert_or_terminate_eq
      split: prod.splits bool.splits)

lemma worker_body_or_terminate_eq:
  "worker_body_or_terminate cl bp j s =
     (if process_file_terminates cl (files s) (input_path j) (output_path j) (force_overwrite bp)
           (max_width bp) (max_height bp) (memory_per_thread_mb bp)
      then None else Some (worker_body cl bp j s))"
  by (simp add: worker_body_or_terminate_def worker_body_def process_file_or_terminate_eq)

lemma worker_body_or_terminate_Some:
  "worker_body_or_terminate cl bp j s = Some s' \<Longrightarrow> s' = worker_body cl bp j s"
  by (simp add: worker_body_or_terminate_eq split: if_splits)

lemma status_answers:
  assumes "\<forall>fs p. \<not> os_status_fails cl fs p"
  shows "worker_body_or_terminate cl bp j s = Some (worker_body cl bp j s)"
  using assms
  by (simp add: worker_body_or_terminate_eq process_file_terminates_def conversion_terminates_def)

subsection \<open>Every job is queued, held or completed\<close>

lemma held_update:
  "i < length ts \<Longrightarrow> mset (held (ts[i := t])) + mset (held [ts ! i]) = mset (held ts) + mset (held [t])"
proof (induction ts arbitrary: i)
  case Nil then show ?case by simp
next
  case (Cons a ts)
  show ?case
  proof (cases i)
    case 0
    then show ?thesis by (cases a; cases t) simp_all
  next
    case (Suc k)
    with Cons.prems have "k < length ts" by simp
    from Cons.IH [OF this] Suc show ?thesis by (cases a) simp_all
  qed
qed

lemma held_take: "i < length ts \<Longrightarrow> ts ! i = Fetching \<Longrightarrow> mset (held (ts[i := Holding j])) = add_mset j (mset (held ts))"
  using held_update [of i ts "Holding j"] by simp

lemma held_done: "i < length ts \<Longrightarrow> ts ! i = Holding j \<Longrightarrow> mset (held ts) = add_mset j (mset (held (ts[i := Fetching])))"
  using held_update [of i ts Fetching] by simp

lemma held_return: "i < length ts \<Longrightarrow> ts ! i = Fetching \<Longrightarrow> mset (held (ts[i := Returned])) = mset (held ts)"
  using held_update [of i ts Returned] by simp

lemma held_replicate: "held (replicate n Returned) = []" "held (replicate n Fetching) = []"
  by (induction n) simp_all

lemma pq_pop_eq: "pq_top q = Some j \<Longrightarrow> pq_pop q = Some q' \<Longrightarrow> q' = remove1 j q"
  by (simp add: pq_pop_def)

lemma pq_top_None: "pq_top q = None \<longleftrightarrow> q = []"
  by (simp add: pq_top_def split: list.splits)

lemma same_settings_simps [simp]:
  "same_settings a a" "same_settings (a\<lparr>job_queue := q\<rparr>) b = same_settings a b"
  by (simp_all add: same_settings_def)

lemma worker_body_settings: "same_settings a b \<Longrightarrow> worker_body cl a = worker_body cl b"
  by (intro ext) (simp add: same_settings_def worker_body_def)

lemma worker_body_or_terminate_settings:
  "same_settings a b \<Longrightarrow> worker_body_or_terminate cl a = worker_body_or_terminate cl b"
  by (intro ext) (simp add: same_settings_def worker_body_or_terminate_def)

lemma jobs_inv_start: "jobs_inv bp (process_all_start bp s)"
  by (simp add: jobs_inv_def process_all_start_def held_replicate)

lemma jobs_inv_step: "worker_step cl p p' \<Longrightarrow> jobs_inv bp p \<Longrightarrow> jobs_inv bp p'"
proof (induction rule: worker_step.induct)
  case (no_more_work i p)
  then show ?case by (simp add: jobs_inv_def held_return)
next
  case (take_job i p j q')
  from take_job(3,4) have q': "q' = remove1 j (job_queue (processor p))" by (rule pq_pop_eq)
  from take_job(3) have jin: "j \<in> set (job_queue (processor p))" by (rule pq_top_in)
  then have ne: "job_queue (processor p) \<noteq> []" by auto
  with take_job(5) have nr: "Returned \<notin> set (threads p)" by (auto simp: jobs_inv_def)
  have "Returned \<notin> set ((threads p)[i := Holding j])"
    using nr set_update_subset_insert [of "threads p" i "Holding j"] by auto
  moreover have "mset (job_queue (processor p)) = add_mset j (mset q')"
    using jin q' by simp
  ultimately show ?case
    using take_job by (simp add: jobs_inv_def held_take)
next
  case (process_job i p j s')
  have "Returned \<in> set ((threads p)[i := Fetching]) \<Longrightarrow> Returned \<in> set (threads p)"
    using set_update_subset_insert [of "threads p" i Fetching] by auto
  moreover have "mset (held (threads p)) = add_mset j (mset (held ((threads p)[i := Fetching])))"
    using process_job(1,2) by (rule held_done)
  ultimately show ?case
    using process_job(4) by (auto simp: jobs_inv_def)
qed

lemma jobs_inv_run: "(worker_step cl)\<^sup>*\<^sup>* (process_all_start bp s) p \<Longrightarrow> jobs_inv bp p"
  by (induction rule: rtranclp_induct) (auto intro: jobs_inv_start jobs_inv_step)

lemma returned_all_jobs:
  assumes "process_all_run cl bp s p" "thread_count bp \<noteq> 0"
  shows "mset (map fst (completed p)) = mset (job_queue bp)" "job_queue (processor p) = []"
proof -
  from assms(1) have inv: "jobs_inv bp p" and ret: "process_all_returned p"
    by (auto simp: process_all_run_def intro: jobs_inv_run)
  from assms(2) have "0 < unat (thread_count bp)" by (simp add: unat_gt_0)
  with inv have "0 < length (threads p)" by (simp add: jobs_inv_def)
  with ret have "Returned \<in> set (threads p)"
    unfolding process_all_returned_def by (metis length_greater_0_conv set_replicate singletonI replicate_empty)
  with inv show e: "job_queue (processor p) = []" by (simp add: jobs_inv_def)
  from ret have "held (threads p) = []"
    unfolding process_all_returned_def using held_replicate(1) by metis
  with inv e show "mset (map fst (completed p)) = mset (job_queue bp)" by (simp add: jobs_inv_def)
qed

subsection \<open>Counters, order of dequeueing, files\<close>

lemma count_outcome_simps [simp]:
  "count_outcome oc [] = 0"
  "count_outcome oc (cs @ [(j, oc')]) = count_outcome oc cs + (if oc' = oc then 1 else 0)"
  by (simp_all add: count_outcome_def)

lemma count_outcome_total:
  "count_outcome Succeeded cs + count_outcome Failed cs + count_outcome Skipped cs = length cs"
proof (induction cs rule: rev_induct)
  case Nil then show ?case by simp
next
  case (snoc c cs)
  then show ?case by (cases c; cases "snd c") auto
qed

lemma counters_inv_start: "counters_inv bp s (process_all_start bp s)"
  by (simp add: counters_inv_def process_all_start_def)

lemma counters_inv_step: "worker_step cl p p' \<Longrightarrow> counters_inv bp s p \<Longrightarrow> counters_inv bp s p'"
proof (induction rule: worker_step.induct)
  case (no_more_work i p)
  then show ?case by (simp add: counters_inv_def)
next
  case (take_job i p j q')
  then show ?case by (simp add: counters_inv_def)
next
  case (process_job i p j s')
  then have ss: "same_settings (processor p) bp" by (simp add: counters_inv_def)
  have eq: "s' = worker_body cl (processor p) j (shared p)"
    using process_job(3) by (rule worker_body_or_terminate_Some)
  have t: "tally (outcome_between (shared p) s') (shared p) s'"
    unfolding eq by (rule worker_body_tally)
  have c: "process_file_calls (trace s') = process_file_calls (trace (shared p))
      @ [(input_path j, output_path j, memory_per_thread_mb bp)]"
    unfolding eq using ss worker_body_calls [of cl "processor p" j "shared p"]
    by (simp add: same_settings_def)
  show ?case
    using process_job(4) t c by (cases "outcome_between (shared p) s'") (simp_all add: counters_inv_def tally_def)
qed

lemma counters_inv_run: "(worker_step cl)\<^sup>*\<^sup>* (process_all_start bp s) p \<Longrightarrow> counters_inv bp s p"
  by (induction rule: rtranclp_induct) (auto intro: counters_inv_start counters_inv_step)

lemma order_inv_step: "worker_step cl p p' \<Longrightarrow> order_inv p \<Longrightarrow> order_inv p'"
proof (induction rule: worker_step.induct)
  case (no_more_work i p)
  then show ?case by (simp add: order_inv_def)
next
  case (take_job i p j q')
  from take_job(3,4) have q': "q' = remove1 j (job_queue (processor p))" by (rule pq_pop_eq)
  from take_job(3) have jin: "j \<in> set (job_queue (processor p))" by (rule pq_top_in)
  have min: "\<forall>x \<in> set (job_queue (processor p)). estimated_memory_mb j \<le> estimated_memory_mb x"
    using take_job(3) pq_top_min by blast
  have sub: "set q' \<subseteq> set (job_queue (processor p))"
    unfolding q' by (rule set_remove1_subset)
  show ?case
    using take_job(5) jin min sub by (auto simp: order_inv_def sorted_append)
next
  case (process_job i p j s')
  then show ?case by (simp add: order_inv_def)
qed

lemma dequeued_inv_step: "worker_step cl p p' \<Longrightarrow> dequeued_inv bp p \<Longrightarrow> dequeued_inv bp p'"
proof (induction rule: worker_step.induct)
  case (no_more_work i p)
  then show ?case by (simp add: dequeued_inv_def)
next
  case (take_job i p j q')
  from take_job(3,4) have q': "q' = remove1 j (job_queue (processor p))" by (rule pq_pop_eq)
  from take_job(3) have jin: "j \<in> set (job_queue (processor p))" by (rule pq_top_in)
  then have "mset (job_queue (processor p)) = add_mset j (mset q')" using q' by simp
  then show ?case using take_job(5) by (simp add: dequeued_inv_def)
next
  case (process_job i p j s')
  then show ?case by (simp add: dequeued_inv_def)
qed

lemma order_inv_run: "(worker_step cl)\<^sup>*\<^sup>* (process_all_start bp s) p \<Longrightarrow> order_inv p \<and> dequeued_inv bp p"
proof (induction rule: rtranclp_induct)
  case base
  then show ?case by (simp add: order_inv_def dequeued_inv_def process_all_start_def)
next
  case (step y z)
  then show ?case using order_inv_step dequeued_inv_step by blast
qed

lemma dequeued_strict:
  assumes "order_inv p" "dequeued_inv bp p" "distinct (map estimated_memory_mb (job_queue bp))"
  shows "sorted_wrt (<) (map estimated_memory_mb (dequeued p))"
proof -
  have "mset (map estimated_memory_mb (dequeued p @ job_queue (processor p)))
          = mset (map estimated_memory_mb (job_queue bp))"
    using assms(2) by (simp add: dequeued_inv_def flip: image_mset_union)
  then have "distinct (map estimated_memory_mb (dequeued p @ job_queue (processor p)))"
    using assms(3) mset_eq_imp_distinct_iff by blast
  then have "distinct (map estimated_memory_mb (dequeued p))" by simp
  with assms(1) show ?thesis
    by (simp add: order_inv_def strict_sorted_iff)
qed

lemma regular_kept:
  "\<forall>x n. fs x = Some n \<longrightarrow> fs' x = Some n \<Longrightarrow> fs_is_regular_file fs x \<Longrightarrow> fs_is_regular_file fs' x"
  "\<forall>x n. fs x = Some n \<longrightarrow> fs' x = Some n \<Longrightarrow> fs_exists fs x \<Longrightarrow> fs_exists fs' x"
  by (auto simp: fs_is_regular_file_def fs_exists_def split: option.splits node.splits)

lemma files_inv_step:
  "worker_step cl p p' \<Longrightarrow> \<not> force_overwrite (processor p) \<and> files_inv s p
     \<Longrightarrow> \<not> force_overwrite (processor p') \<and> files_inv s p'"
proof (induction rule: worker_step.induct)
  case (no_more_work i p)
  then show ?case by (simp add: files_inv_def)
next
  case (take_job i p j q')
  then show ?case by (simp add: files_inv_def)
next
  case (process_job i p j s')
  then have nf: "\<not> force_overwrite (processor p)" and inv: "files_inv s p" by simp_all
  have eq: "s' = worker_body cl (processor p) j (shared p)"
    using process_job(3) by (rule worker_body_or_terminate_Some)
  have keep: "\<forall>x n. files s x = Some n \<longrightarrow> files s' x = Some n"
    using inv worker_body_keeps [OF nf] unfolding eq files_inv_def by blast
  have "outcome_between (shared p) s' = Skipped"
    if "fs_is_regular_file (files s) (input_path j)" "fs_exists (files s) (output_path j)"
  proof -
    from inv have k: "\<forall>x n. files s x = Some n \<longrightarrow> files (shared p) x = Some n"
      by (simp add: files_inv_def)
    show ?thesis unfolding eq
      using nf regular_kept(1) [OF k that(1)] regular_kept(2) [OF k that(2)]
      by (rule worker_body_skips(1))
  qed
  then show ?case using nf inv keep by (auto simp: files_inv_def)
qed

lemma files_inv_run:
  "(worker_step cl)\<^sup>*\<^sup>* (process_all_start bp s) p \<Longrightarrow> \<not> force_overwrite bp
    \<Longrightarrow> \<not> force_overwrite (processor p) \<and> files_inv s p"
proof (induction rule: rtranclp_induct)
  case base
  then show ?case by (simp add: files_inv_def process_all_start_def)
next
  case (step y z)
  then show ?case using files_inv_step by blast
qed

subsection \<open>A schedule on which \<^verbatim>\<open>process_all\<close> returns\<close>

lemma first_thread_runs:
  "length (job_queue (processor p)) = n \<Longrightarrow> threads p = Fetching # ts
   \<Longrightarrow> worker_thread cl (processor p) (shared p) = Some w
   \<Longrightarrow> \<exists>p'. (worker_step cl)\<^sup>*\<^sup>* p p' \<and> threads p' = Returned # ts
          \<and> job_queue (processor p') = [] \<and> shared p' = w"
proof (induction n arbitrary: p rule: less_induct)
  case (less n)
  show ?case
  proof (cases "pq_top (job_queue (processor p))")
    case None
    then have e: "job_queue (processor p) = []" by (simp add: pq_top_None)
    let ?p' = "p\<lparr>threads := (threads p)[0 := Returned]\<rparr>"
    have "worker_step cl p ?p'"
      using less.prems(2) e by (intro worker_step.no_more_work) simp_all
    moreover have "worker_thread cl (processor p) (shared p) = Some (shared p)"
      using None by (subst worker_thread.simps) simp
    then have "shared p = w" using less.prems(3) by simp
    ultimately show ?thesis
      using less.prems(2) e by (intro exI [of _ ?p']) auto
  next
    case (Some j)
    define q' where "q' = remove1 j (job_queue (processor p))"
    have pop: "pq_pop (job_queue (processor p)) = Some q'"
      using Some by (simp add: pq_pop_def q'_def)
    have unfold: "worker_thread cl (processor p) (shared p)
        = (case worker_body_or_terminate cl (processor p) j (shared p) of
             None \<Rightarrow> None
           | Some s' \<Rightarrow> worker_thread cl ((processor p)\<lparr>job_queue := q'\<rparr>) s')"
      unfolding q'_def using Some by (subst worker_thread.simps) simp
    with less.prems(3) obtain s' where
      body: "worker_body_or_terminate cl (processor p) j (shared p) = Some s'"
      and rest: "worker_thread cl ((processor p)\<lparr>job_queue := q'\<rparr>) s' = Some w"
      by (auto split: option.splits)
    let ?p1 = "p\<lparr>processor := (processor p)\<lparr>job_queue := q'\<rparr>,
                  threads := (threads p)[0 := Holding j], dequeued := dequeued p @ [j]\<rparr>"
    have s1: "worker_step cl p ?p1"
      using less.prems(2) Some pop by (intro worker_step.take_job) simp_all
    let ?p2 = "?p1\<lparr>shared := s', threads := (threads ?p1)[0 := Fetching],
                   completed := completed ?p1 @ [(j, outcome_between (shared ?p1) s')]\<rparr>"
    have "worker_body_or_terminate cl (processor ?p1) j (shared ?p1) = Some s'"
      using body worker_body_or_terminate_settings [of "processor ?p1" "processor p" cl] by simp
    then have s2: "worker_step cl ?p1 ?p2"
      using less.prems(2) by (intro worker_step.process_job) simp_all
    have len: "length (job_queue (processor ?p2)) < n"
      using less.prems(1) length_remove1_less [OF pq_top_in [OF Some]] by (simp add: q'_def)
    have th: "threads ?p2 = Fetching # ts" using less.prems(2) by simp
    have w: "worker_thread cl (processor ?p2) (shared ?p2) = Some w" using rest by simp
    from less.IH [OF len refl th w] obtain p' where p':
      "(worker_step cl)\<^sup>*\<^sup>* ?p2 p'" "threads p' = Returned # ts" "job_queue (processor p') = []"
      "shared p' = w"
      by blast
    have "(worker_step cl)\<^sup>*\<^sup>* p p'"
      using s1 s2 p'(1) by (meson converse_rtranclp_into_rtranclp)
    then show ?thesis using p'(2,3,4) by blast
  qed
qed

lemma others_return:
  "job_queue (processor p) = [] \<Longrightarrow> threads p = replicate m Returned @ replicate n Fetching
   \<Longrightarrow> \<exists>p'. (worker_step cl)\<^sup>*\<^sup>* p p' \<and> threads p' = replicate (m + n) Returned
          \<and> shared p' = shared p \<and> job_queue (processor p') = []"
proof (induction n arbitrary: p m)
  case 0
  then show ?case by auto
next
  case (Suc n)
  let ?p1 = "p\<lparr>threads := (threads p)[m := Returned]\<rparr>"
  have "worker_step cl p ?p1"
    using Suc.prems by (intro worker_step.no_more_work) (simp_all add: nth_append)
  moreover have "threads ?p1 = replicate (Suc m) Returned @ replicate n Fetching"
    using Suc.prems(2) by (simp add: list_update_append replicate_append_same)
  moreover have "job_queue (processor ?p1) = []" using Suc.prems(1) by simp
  ultimately obtain p' where "(worker_step cl)\<^sup>*\<^sup>* ?p1 p'" "threads p' = replicate (Suc m + n) Returned"
     "shared p' = shared ?p1" "job_queue (processor p') = []"
    using Suc.IH [of ?p1 "Suc m"] by blast
  with \<open>worker_step cl p ?p1\<close> show ?case
    by (intro exI [of _ p']) (auto intro: converse_rtranclp_into_rtranclp)
qed

lemma process_all_can_return:
  assumes "thread_count bp \<noteq> 0" and alone: "worker_thread cl bp s = Some w"
  shows "\<exists>p. process_all_run cl bp s p \<and> shared p = w"
proof -
  from assms(1) obtain k where k: "unat (thread_count bp) = Suc k"
    by (metis not0_implies_Suc unat_eq_0)
  let ?p0 = "process_all_start bp s"
  have th: "threads ?p0 = Fetching # replicate k Fetching"
    by (simp add: process_all_start_def k)
  have w: "worker_thread cl (processor ?p0) (shared ?p0) = Some w"
    using alone by (simp add: process_all_start_def)
  from first_thread_runs [OF refl th w] obtain p1 where p1:
    "(worker_step cl)\<^sup>*\<^sup>* ?p0 p1" "threads p1 = Returned # replicate k Fetching"
    "job_queue (processor p1) = []" "shared p1 = w"
    by blast
  have "threads p1 = replicate 1 Returned @ replicate k Fetching" using p1(2) by simp
  from others_return [OF p1(3) this, of cl] obtain p2 where p2:
    "(worker_step cl)\<^sup>*\<^sup>* p1 p2" "threads p2 = replicate (1 + k) Returned" "shared p2 = shared p1"
    by blast
  have "process_all_run cl bp s p2"
    using p1(1) p2(1,2) by (auto simp: process_all_run_def process_all_returned_def)
  moreover have "shared p2 = w"
    using p2(3) p1(4) by simp
  ultimately show ?thesis by blast
qed

lemma worker_thread_returns:
  assumes "\<forall>fs x. \<not> os_status_fails cl fs x"
  shows "\<exists>w. worker_thread cl bp s = Some w"
  using assms
proof (induction cl bp s rule: worker_thread.induct)
  case (1 cl bp s)
  show ?case
  proof (cases "pq_top (job_queue bp)")
    case None
    then show ?thesis by (subst worker_thread.simps) simp
  next
    case (Some j)
    have b: "worker_body_or_terminate cl bp j s = Some (worker_body cl bp j s)"
      using "1.prems" by (rule status_answers)
    from "1.IH" [OF Some b "1.prems"] obtain w where
      "worker_thread cl (bp\<lparr>job_queue := remove1 j (job_queue bp)\<rparr>) (worker_body cl bp j s) = Some w"
      by blast
    then show ?thesis using Some b by (subst worker_thread.simps) simp
  qed
qed

text \<open>
  Every step lowers \<open>remaining_work\<close>, so no schedule runs forever, and a pool that has a
  thread left can take a step unless a thread holds a job whose call ends in an exception:
  on every schedule \<^verbatim>\<open>process_all\<close> returns or the process is terminated.
\<close>

lemma weight_update:
  "i < length ts \<Longrightarrow>
   sum_list (map thread_weight (ts[i := t])) + thread_weight (ts ! i)
     = sum_list (map thread_weight ts) + thread_weight t"
proof (induction ts arbitrary: i)
  case Nil then show ?case by simp
next
  case (Cons a ts)
  then show ?case by (cases i) auto
qed

lemma worker_step_decreases: "worker_step cl p p' \<Longrightarrow> remaining_work p' < remaining_work p"
proof (induction rule: worker_step.induct)
  case (no_more_work i p)
  then show ?case
    using weight_update [of i "threads p" Returned] by (simp add: remaining_work_def)
next
  case (take_job i p j q')
  from take_job(3,4) have q': "q' = remove1 j (job_queue (processor p))" by (rule pq_pop_eq)
  have "length q' < length (job_queue (processor p))"
    unfolding q' using take_job(3) by (intro length_remove1_less pq_top_in)
  then show ?case
    using take_job(1,2) weight_update [of i "threads p" "Holding j"] by (simp add: remaining_work_def)
next
  case (process_job i p j s')
  then show ?case
    using weight_update [of i "threads p" Fetching] by (simp add: remaining_work_def)
qed

lemma worker_step_terminates: "wf {(p', p). worker_step cl p p'}"
proof (rule wf_subset)
  show "wf (measure remaining_work)" by simp
  show "{(p', p). worker_step cl p p'} \<subseteq> measure remaining_work"
    using worker_step_decreases by auto
qed

lemma worker_step_progress:
  assumes "\<not> process_all_returned p"
  shows "(\<exists>p'. worker_step cl p p')
       \<or> (\<exists>i j. i < length (threads p) \<and> threads p ! i = Holding j
               \<and> worker_body_or_terminate cl (processor p) j (shared p) = None)"
proof -
  from assms obtain i where i: "i < length (threads p)" "threads p ! i \<noteq> Returned"
    unfolding process_all_returned_def
    by (metis length_replicate nth_equalityI nth_replicate)
  show ?thesis
  proof (cases "threads p ! i")
    case Fetching
    show ?thesis
    proof (cases "pq_top (job_queue (processor p))")
      case None
      then have "job_queue (processor p) = []" by (simp add: pq_top_None)
      with i(1) Fetching show ?thesis by (blast intro: worker_step.no_more_work)
    next
      case (Some j)
      then have "pq_pop (job_queue (processor p)) = Some (remove1 j (job_queue (processor p)))"
        by (simp add: pq_pop_def)
      with i(1) Fetching Some show ?thesis by (blast intro: worker_step.take_job)
    qed
  next
    case (Holding j)
    show ?thesis
    proof (cases "worker_body_or_terminate cl (processor p) j (shared p)")
      case None
      with i(1) Holding show ?thesis by blast
    next
      case (Some s')
      with i(1) Holding show ?thesis by (blast intro: worker_step.process_job)
    qed
  next
    case Returned
    with i(2) show ?thesis by simp
  qed
qed

subsection \<open>The memory check of the conversion\<close>

lemma sint_of_nat_small: "k < 2 ^ 31 \<Longrightarrow> sint (of_nat k :: c_int) = int k"
proof -
  assume k: "k < 2 ^ 31"
  have "sint (of_nat k :: c_int) = signed_take_bit 31 (int k)"
    by (simp add: signed_of_nat)
  also have "\<dots> = int k"
    using k by (intro signed_take_bit_int_eq_self) simp_all
  finally show ?thesis .
qed

lemma run_counters:
  assumes run: "process_all_run cl bp s p"
    and zero: "success_count s = 0" "fail_count s = 0" "skip_count s = 0"
    and workers: "thread_count bp \<noteq> 0"
    and size: "length (job_queue bp) < 2 ^ 31"
  shows "sint (success_count (shared p)) = int (count_outcome Succeeded (completed p))"
    and "sint (fail_count (shared p)) = int (count_outcome Failed (completed p))"
    and "sint (skip_count (shared p)) = int (count_outcome Skipped (completed p))"
    and "length (completed p) = length (job_queue bp)"
proof -
  from run have steps: "(worker_step cl)\<^sup>*\<^sup>* (process_all_start bp s) p"
    by (simp add: process_all_run_def)
  have inv: "counters_inv bp s p" using steps by (rule counters_inv_run)
  have "mset (map fst (completed p)) = mset (job_queue bp)"
    using run workers by (rule returned_all_jobs(1))
  then have "length (map fst (completed p)) = length (job_queue bp)"
    by (rule mset_eq_length)
  then show len: "length (completed p) = length (job_queue bp)" by simp
  have le: "count_outcome oc (completed p) < 2 ^ 31" for oc
  proof -
    have "count_outcome oc (completed p) \<le> length (completed p)"
      by (simp add: count_outcome_def)
    with len size show ?thesis by simp
  qed
  show "sint (success_count (shared p)) = int (count_outcome Succeeded (completed p))"
    using inv zero(1) le [of Succeeded] by (simp add: counters_inv_def sint_of_nat_small)
  show "sint (fail_count (shared p)) = int (count_outcome Failed (completed p))"
    using inv zero(2) le [of Failed] by (simp add: counters_inv_def sint_of_nat_small)
  show "sint (skip_count (shared p)) = int (count_outcome Skipped (completed p))"
    using inv zero(3) le [of Skipped] by (simp add: counters_inv_def sint_of_nat_small)
qed

lemma convert_refuses:
  assumes "0 < mm" "mm < estimate_memory_requirement cl (files s) i"
  shows "\<not> fst (convert_heif_to_jpeg cl i out q mw mh mm s)"
    and "files (snd (convert_heif_to_jpeg cl i out q mw mh mm s)) = files s"
    and "decode_calls (trace (snd (convert_heif_to_jpeg cl i out q mw mh mm s))) = decode_calls (trace s)"
  using assms by (auto simp: convert_heif_to_jpeg_def Let_def split: option.splits)

lemma new_BatchProcessor_positive:
  assumes "new_BatchProcessor q force mw mh budget n = Some bp"
  shows "0 < memory_per_thread_mb bp" "100 \<le> memory_per_thread_mb bp"
proof -
  from assms have "memory_per_thread_mb bp = max 100 (budget div ucast n)"
    by (auto simp: new_BatchProcessor_def split: if_splits)
  then show "100 \<le> memory_per_thread_mb bp" by simp
  then have "(0 :: size_t) < 100 \<and> 100 \<le> memory_per_thread_mb bp" by simp
  then show "0 < memory_per_thread_mb bp" by (meson less_le_trans)
qed

lemma process_file_never_decodes:
  assumes "0 < mm" "mm < estimate_memory_requirement cl (files s) i"
  shows "decode_calls (trace (process_file cl i out q force mw mh mm s)) = decode_calls (trace s)"
    and "files (process_file cl i out q force mw mh mm s) = files s"
    and "success_count (process_file cl i out q force mw mh mm s) = success_count s"
proof -
  let ?s1 = "emit (Call_process_file i out mm) s"
  let ?r = "convert_heif_to_jpeg cl i out q mw mh mm ?s1"
  have est: "mm < estimate_memory_requirement cl (files ?s1) i" using assms(2) by simp
  note cr = convert_refuses [OF assms(1) est, of out q mw mh]
  have "decode_calls (trace (process_file cl i out q force mw mh mm s)) = decode_calls (trace s)
      \<and> files (process_file cl i out q force mw mh mm s) = files s
      \<and> success_count (process_file cl i out q force mw mh mm s) = success_count s"
  proof (cases rule: process_file_cases [where fs = "files s" and i = i and out = out and force = force])
    case not_found
    from process_file_not_found [OF this, of cl out q force mw mh mm] show ?thesis
      by (auto simp: tally_def)
  next
    case skip
    from process_file_skip [OF this, of cl q mw mh mm] show ?thesis
      by (auto simp: tally_def)
  next
    case conv
    from process_file_convert [OF conv refl, of cl q mw mh mm] cr show ?thesis
      by (auto simp: tally_def)
  qed
  then show "decode_calls (trace (process_file cl i out q force mw mh mm s)) = decode_calls (trace s)"
    and "files (process_file cl i out q force mw mh mm s) = files s"
    and "success_count (process_file cl i out q force mw mh mm s) = success_count s"
    by simp_all
qed

lemma process_file_refused:
  assumes "0 < mm" "mm < estimate_memory_requirement cl (files s) i"
    and "reaches_conversion (files s) i out force"
  shows "tally Failed s (process_file cl i out q force mw mh mm s)"
proof -
  let ?s1 = "emit (Call_process_file i out mm) s"
  have est: "mm < estimate_memory_requirement cl (files ?s1) i" using assms(2) by simp
  from process_file_convert(1) [OF assms(3) refl, of cl q mw mh mm]
    convert_refuses(1) [OF assms(1) est, of out q mw mh]
  show ?thesis by simp
qed

lemma worker_body_warned:
  "memory_per_thread_mb bp < estimated_memory_mb j \<Longrightarrow>
   worker_body cl bp j s
     = process_file cl (input_path j) (output_path j) (quality bp) (force_overwrite bp)
         (max_width bp) (max_height bp) (memory_per_thread_mb bp)
         (emit (Print (Warn_exceeds_limit (input_path j) (estimated_memory_mb j)
                  (memory_per_thread_mb bp))) s)"
  by (simp add: worker_body_def)

lemma worker_body_refused:
  assumes pos: "0 < memory_per_thread_mb bp"
    and est: "memory_per_thread_mb bp < estimate_memory_requirement cl (files s) (input_path j)"
    and r: "reaches_conversion (files s) (input_path j) (output_path j) (force_overwrite bp)"
  shows "tally Failed s (worker_body cl bp j s)"
    and "decode_calls (trace (worker_body cl bp j s)) = decode_calls (trace s)"
    and "files (worker_body cl bp j s) = files s"
proof -
  obtain pre where pre: "worker_body cl bp j s
      = process_file cl (input_path j) (output_path j) (quality bp) (force_overwrite bp)
          (max_width bp) (max_height bp) (memory_per_thread_mb bp) (s\<lparr>trace := trace s @ map Print pre\<rparr>)"
    using worker_body_eq by blast
  let ?s = "s\<lparr>trace := trace s @ map Print pre\<rparr>"
  have e: "memory_per_thread_mb bp < estimate_memory_requirement cl (files ?s) (input_path j)"
    using est by simp
  have r': "reaches_conversion (files ?s) (input_path j) (output_path j) (force_overwrite bp)"
    using r by simp
  from process_file_refused [OF pos e r', of "quality bp" "max_width bp" "max_height bp"]
  show "tally Failed s (worker_body cl bp j s)"
    unfolding pre by (simp add: tally_def)
  from process_file_never_decodes(1) [OF pos e, of "output_path j" "quality bp" "force_overwrite bp"
      "max_width bp" "max_height bp"]
  show "decode_calls (trace (worker_body cl bp j s)) = decode_calls (trace s)"
    unfolding pre by simp
  from process_file_never_decodes(2) [OF pos e, of "output_path j" "quality bp" "force_overwrite bp"
      "max_width bp" "max_height bp"]
  show "files (worker_body cl bp j s) = files s"
    unfolding pre by simp
qed

lemma ceiling_small_budget:
  assumes "n \<noteq> 0" "budget \<le> 100"
  shows "max 100 (budget div ucast (n :: c_uint)) = (100 :: size_t)"
proof -
  have "unat (budget div ucast n :: size_t) \<le> unat budget"
    by (simp add: unat_div div_le_dividend)
  also have "\<dots> \<le> 100" using assms(2) by (simp add: word_le_nat_alt)
  finally have "budget div ucast n \<le> (100 :: size_t)" by (simp add: word_le_nat_alt)
  then show ?thesis by (simp add: max_def)
qed

lemma encode_jpeg_success:
  assumes "fst (encode_jpeg cl c out q s)"
  shows "fopen_wb cl (files s) out \<noteq> None" "snd (jpeg_encode cl c q)"
    "fs_exists (files (snd (encode_jpeg cl c out q s))) out"
  using assms
  by (auto simp: encode_jpeg_def Let_def fopen_wb_def fwrite_all_def fs_exists_def
       split: option.splits prod.splits if_splits node.splits)

lemma write_output_success:
  assumes "fst (write_output cl c out q s)"
  shows "parent_path out \<noteq> [] \<and> \<not> fs_exists (files s) (parent_path out)
           \<longrightarrow> fst (create_directories cl (files s) (parent_path out))"
    "snd (jpeg_encode cl c q)"
    "fs_exists (files (snd (write_output cl c out q s))) out"
  using assms encode_jpeg_success(2,3)
  by (auto simp: write_output_def Let_def split: prod.splits bool.splits if_splits)

lemma decode_and_encode_success_eq:
  assumes "fst (decode_and_encode cl i out q s)"
  shows "\<exists>c w h. files s i = Some (RegularFile c) \<and> heif_primary_handle cl c = PrimaryImageHandle w h
           \<and> heif_decode_image cl c = DecodedRGB
           \<and> decode_and_encode cl i out q s
               = write_output cl c out q (emit (Call_heif_decode_image i) s)"
  using assms
  by (auto simp: decode_and_encode_def Let_def
        split: option.splits node.splits heif_handle.splits heif_decoded.splits)

lemma decode_and_encode_success:
  assumes "fst (decode_and_encode cl i out q s)"
  shows "\<exists>c w h. files s i = Some (RegularFile c) \<and> heif_primary_handle cl c = PrimaryImageHandle w h
           \<and> heif_decode_image cl c = DecodedRGB \<and> snd (jpeg_encode cl c q)"
    "fs_exists (files (snd (decode_and_encode cl i out q s))) out"
    "parent_path out \<noteq> [] \<and> \<not> fs_exists (files s) (parent_path out)
           \<longrightarrow> fst (create_directories cl (files s) (parent_path out))"
proof -
  from decode_and_encode_success_eq [OF assms] obtain c w h where c:
    "files s i = Some (RegularFile c)" "heif_primary_handle cl c = PrimaryImageHandle w h"
    "heif_decode_image cl c = DecodedRGB"
    "decode_and_encode cl i out q s = write_output cl c out q (emit (Call_heif_decode_image i) s)"
    by blast
  from assms c(4) have f: "fst (write_output cl c out q (emit (Call_heif_decode_image i) s))" by simp
  from write_output_success(2) [OF f] c(1-3)
  show "\<exists>c w h. files s i = Some (RegularFile c) \<and> heif_primary_handle cl c = PrimaryImageHandle w h
           \<and> heif_decode_image cl c = DecodedRGB \<and> snd (jpeg_encode cl c q)" by blast
  from write_output_success(3) [OF f]
  show "fs_exists (files (snd (decode_and_encode cl i out q s))) out" unfolding c(4) .
  from write_output_success(1) [OF f]
  show "parent_path out \<noteq> [] \<and> \<not> fs_exists (files s) (parent_path out)
           \<longrightarrow> fst (create_directories cl (files s) (parent_path out))" by simp
qed

lemma convert_success:
  assumes "fst (convert_heif_to_jpeg cl i out q mw mh mm s)"
  shows "dimension_violation cl (files s) i mw mh = None"
    "\<not> (0 < mm \<and> mm < estimate_memory_requirement cl (files s) i)"
    "\<exists>c w h. files s i = Some (RegularFile c) \<and> heif_primary_handle cl c = PrimaryImageHandle w h
           \<and> heif_decode_image cl c = DecodedRGB \<and> snd (jpeg_encode cl c q)"
    "fs_exists (files (snd (convert_heif_to_jpeg cl i out q mw mh mm s))) out"
    "parent_path out \<noteq> [] \<and> \<not> fs_exists (files s) (parent_path out)
           \<longrightarrow> fst (create_directories cl (files s) (parent_path out))"
proof -
  let ?s = "emit (Print (Converting i out)) (emit (Call_convert_heif_to_jpeg i out mm) s)"
  from assms have a: "dimension_violation cl (files s) i mw mh = None"
    "\<not> (0 < mm \<and> mm < estimate_memory_requirement cl (files s) i)"
    and d: "convert_heif_to_jpeg cl i out q mw mh mm s = decode_and_encode cl i out q ?s"
    by (auto simp: convert_heif_to_jpeg_def Let_def split: option.splits prod.splits if_splits)
  from a show "dimension_violation cl (files s) i mw mh = None"
    "\<not> (0 < mm \<and> mm < estimate_memory_requirement cl (files s) i)" by simp_all
  from assms d have f: "fst (decode_and_encode cl i out q ?s)" by simp
  from decode_and_encode_success(1) [OF f]
  show "\<exists>c w h. files s i = Some (RegularFile c) \<and> heif_primary_handle cl c = PrimaryImageHandle w h
           \<and> heif_decode_image cl c = DecodedRGB \<and> snd (jpeg_encode cl c q)" by simp
  from decode_and_encode_success(2) [OF f]
  show "fs_exists (files (snd (convert_heif_to_jpeg cl i out q mw mh mm s))) out"
    unfolding d by simp
  from decode_and_encode_success(3) [OF f]
  show "parent_path out \<noteq> [] \<and> \<not> fs_exists (files s) (parent_path out)
           \<longrightarrow> fst (create_directories cl (files s) (parent_path out))" by simp
qed

subsection \<open>When the conversion succeeds\<close>

lemma encode_jpeg_fst:
  "fst (encode_jpeg cl c out q s) \<longleftrightarrow> fopen_wb cl (files s) out \<noteq> None \<and> snd (jpeg_encode cl c q)"
  by (auto simp: encode_jpeg_def Let_def split: option.splits prod.splits)

lemma write_output_fst:
  "fst (write_output cl c out q s) \<longleftrightarrow>
     (if parent_path out \<noteq> [] \<and> \<not> fs_exists (files s) (parent_path out)
      then fst (create_directories cl (files s) (parent_path out))
         \<and> fopen_wb cl (snd (create_directories cl (files s) (parent_path out))) out \<noteq> None
      else fopen_wb cl (files s) out \<noteq> None)
     \<and> snd (jpeg_encode cl c q)"
  by (auto simp: write_output_def Let_def encode_jpeg_fst split: prod.splits bool.splits)

lemma decode_and_encode_fst:
  "fst (decode_and_encode cl i out q s) \<longleftrightarrow>
     decodes cl (files s) i
     \<and> (if parent_path out \<noteq> [] \<and> \<not> fs_exists (files s) (parent_path out)
        then fst (create_directories cl (files s) (parent_path out))
           \<and> fopen_wb cl (snd (create_directories cl (files s) (parent_path out))) out \<noteq> None
        else fopen_wb cl (files s) out \<noteq> None)
     \<and> (case files s i of Some (RegularFile c) \<Rightarrow> snd (jpeg_encode cl c q) | _ \<Rightarrow> False)"
  by (simp add: decode_and_encode_def decodes_def Let_def write_output_fst
      split: option.splits node.splits heif_handle.splits heif_decoded.splits)

lemma convert_fst:
  "fst (convert_heif_to_jpeg cl i out q mw mh mm s) \<longleftrightarrow> converts cl (files s) i out q mw mh mm"
  by (auto simp: convert_heif_to_jpeg_def converts_def Let_def decode_and_encode_fst
      split: option.splits prod.splits)

subsection \<open>The arithmetic of the estimate\<close>

lemma floorlog2_eq: "2 ^ n \<le> m \<Longrightarrow> m < 2 ^ Suc n \<Longrightarrow> floorlog 2 m = Suc n"
  by (rule antisym) (simp_all add: floorlog_le_iff floorlog_ge_SucI)

lemma scast_nonneg:
  fixes x :: c_int
  assumes "0 \<le> sint x"
  shows "unat (scast x :: size_t) = nat (sint x)"
proof -
  have a: "sint (scast x :: size_t) = sint x"
    by (rule sint_up_scast) (simp add: is_up)
  have "sint x < 2 ^ 31" using sint_lt [of x] by simp
  then have b: "take_bit 64 (sint x) = sint x"
    using assms by (simp add: take_bit_int_eq_self)
  have "uint (scast x :: size_t) = take_bit 64 (sint (scast x :: size_t))"
    using uint_sint [of "scast x :: size_t"] by simp
  then have "uint (scast x :: size_t) = sint x" using a b by simp
  then show ?thesis by (simp add: unat_eq_nat_uint)
qed

lemma stb31_self: "0 \<le> k \<Longrightarrow> k < 2 ^ 31 \<Longrightarrow> signed_take_bit 31 k = (k :: int)"
  by (rule signed_take_bit_int_eq_self) simp_all

lemma sint_mult_dims:
  fixes w h :: c_int
  assumes "0 \<le> sint w" "0 \<le> sint h" "sint w * sint h * 4 < 2 ^ 31"
  shows "sint (w * h * 3) = sint w * sint h * 3" and "sint (w * h * 4) = sint w * sint h * 4"
proof -
  define P where "P = sint w * sint h"
  have nn: "0 \<le> P" using assms by (simp add: P_def)
  have b4: "P * 4 < 2 ^ 31" using assms(3) by (simp add: P_def)
  have "signed_take_bit 31 P = P" using nn b4 by (intro stb31_self) linarith+
  then have wh: "sint (w * h) = P"
    by (simp add: sint_word_mult P_def)
  have "signed_take_bit 31 (P * 3) = P * 3" using nn b4 by (intro stb31_self) linarith+
  then have "sint (w * h * 3) = P * 3"
    by (simp add: sint_word_mult [of "w * h" 3] wh)
  then show "sint (w * h * 3) = sint w * sint h * 3" by (simp add: P_def)
  have "signed_take_bit 31 (P * 4) = P * 4" using nn b4 by (intro stb31_self) linarith+
  then have "sint (w * h * 4) = P * 4"
    by (simp add: sint_word_mult [of "w * h" 4] wh)
  then show "sint (w * h * 4) = sint w * sint h * 4" by (simp add: P_def)
qed

lemma ceil_div: "\<lceil>real n / 2 ^ 21\<rceil> = int ((n + 2 ^ 21 - 1) div 2 ^ 21)"
proof -
  have "\<lceil>real n / 2 ^ 21\<rceil> = \<lceil>of_int (int n) / of_int (2 ^ 21) :: real\<rceil>" by simp
  also have "\<dots> = - (- int n div 2 ^ 21)" by (simp only: ceiling_divide_eq_div)
  also have "\<dots> = (int n + 2 ^ 21 - 1) div 2 ^ 21" by simp
  also have "\<dots> = int ((n + 2 ^ 21 - 1) div 2 ^ 21)" by (simp add: zdiv_int)
  finally show ?thesis .
qed

lemma unat_scast_dims:
  fixes w h :: c_int
  assumes "0 \<le> sint w" "0 \<le> sint h" "sint w * sint h * 4 < 2 ^ 31"
  shows "unat (scast (w * h * 3) :: size_t) = nat (sint w * sint h) * 3"
    and "unat (scast (w * h * 4) :: size_t) = nat (sint w * sint h) * 4"
proof -
  have nn: "0 \<le> sint w * sint h" using assms by simp
  have "0 \<le> sint (w * h * 3)" using sint_mult_dims(1) [OF assms] nn by simp
  then have "unat (scast (w * h * 3) :: size_t) = nat (sint (w * h * 3))" by (rule scast_nonneg)
  also have "\<dots> = nat (sint w * sint h * 3)" using sint_mult_dims(1) [OF assms] by simp
  also have "\<dots> = nat (sint w * sint h) * 3" using nn by (simp add: nat_mult_distrib)
  finally show "unat (scast (w * h * 3) :: size_t) = nat (sint w * sint h) * 3" .
  have "0 \<le> sint (w * h * 4)" using sint_mult_dims(2) [OF assms] nn by simp
  then have "unat (scast (w * h * 4) :: size_t) = nat (sint (w * h * 4))" by (rule scast_nonneg)
  also have "\<dots> = nat (sint w * sint h * 4)" using sint_mult_dims(2) [OF assms] by simp
  also have "\<dots> = nat (sint w * sint h) * 4" using nn by (simp add: nat_mult_distrib)
  finally show "unat (scast (w * h * 4) :: size_t) = nat (sint w * sint h) * 4" .
qed

lemma unat_add_size_t:
  fixes a b :: size_t
  assumes "unat a + unat b < 2 ^ 64"
  shows "unat (a + b) = unat a + unat b"
proof -
  have "unat a + unat b < 2 ^ LENGTH(64)" using assms by simp
  then show ?thesis by (rule unat_add_lem [THEN iffD1])
qed

lemma ceil_mb_small: "n < 2 ^ 50 \<Longrightarrow> ceil_mb n = (3 * n + 2 ^ 21 - 1) div 2 ^ 21"
  by (simp add: ceil_mb_def double_round_def)

lemma memory_mb_in_range:
  fixes w h :: c_int
  assumes "0 \<le> sint w" "0 \<le> sint h" "sint w * sint h * 4 < 2 ^ 31"
  shows "int (unat (memory_mb_of_dimensions w h))
         = \<lceil>1.5 * real_of_int (sint w * sint h * 3 + sint w * sint h * 4 + 10 * 1024 * 1024)
              / (1024 * 1024)\<rceil>"
proof -
  define P where "P = nat (sint w * sint h)"
  have nn: "0 \<le> sint w * sint h" using assms by simp
  have P: "sint w * sint h = int P" using nn by (simp add: P_def)
  have "int (P * 4) < int (2 ^ 31)" using assms(3) unfolding P by simp
  then have Pb: "P * 4 < 2 ^ 31" by (simp only: of_nat_less_iff)
  have rgb: "unat (scast (w * h * 3) :: size_t) = P * 3"
    unfolding P_def by (rule unat_scast_dims(1) [OF assms])
  have jpeg: "unat (scast (w * h * 4) :: size_t) = P * 4"
    unfolding P_def by (rule unat_scast_dims(2) [OF assms])
  define total where "total = P * 3 + P * 4 + 10485760"
  have tb: "total < 2 ^ 33" using Pb by (simp add: total_def)
  have a: "unat ((scast (w * h * 3) :: size_t) + scast (w * h * 4)) = P * 3 + P * 4"
    using Pb by (subst unat_add_size_t) (simp_all add: rgb jpeg)
  have sum: "unat ((scast (w * h * 3) :: size_t) + scast (w * h * 4) + 10485760) = total"
    using Pb by (subst unat_add_size_t) (simp_all add: a total_def)
  have cm: "ceil_mb total = (3 * total + 2 ^ 21 - 1) div 2 ^ 21"
    using tb by (intro ceil_mb_small) simp
  have small: "(3 * total + 2 ^ 21 - 1) div 2 ^ 21 < 2 ^ 64" using tb by simp
  have "memory_mb_of_dimensions w h = of_nat ((3 * total + 2 ^ 21 - 1) div 2 ^ 21)"
    using sum cm by (simp add: memory_mb_of_dimensions_def Let_def)
  then have res: "unat (memory_mb_of_dimensions w h) = (3 * total + 2 ^ 21 - 1) div 2 ^ 21"
    using small by (simp only: unat_of_nat) simp
  have "1.5 * real_of_int (sint w * sint h * 3 + sint w * sint h * 4 + 10 * 1024 * 1024)
              / (1024 * 1024) = real (3 * total) / 2 ^ 21"
    unfolding P by (simp add: total_def)
  then have "\<lceil>1.5 * real_of_int (sint w * sint h * 3 + sint w * sint h * 4 + 10 * 1024 * 1024)
              / (1024 * 1024)\<rceil> = \<lceil>real (3 * total) / 2 ^ 21\<rceil>"
    by (rule arg_cong)
  also have "\<dots> = int ((3 * total + 2 ^ 21 - 1) div 2 ^ 21)"
    by (rule ceil_div)
  also have "\<dots> = int (unat (memory_mb_of_dimensions w h))"
    by (simp only: res)
  finally show ?thesis by (rule sym)
qed

lemma estimate_unreadable:
  assumes "\<forall>w h. heif_open cl fs p \<noteq> PrimaryImageHandle w h"
  shows "estimate_memory_requirement cl fs p = 0"
  using assms by (auto simp: estimate_memory_requirement_def split: heif_handle.splits)

lemma zero_cost_admitted:
  assumes "estimate_memory_requirement cl (files s) i = 0"
  shows "convert_heif_to_jpeg cl i out q 0 0 mm s
     = decode_and_encode cl i out q
         (emit (Print (Converting i out)) (emit (Call_convert_heif_to_jpeg i out mm) s))"
  using assms by (simp add: convert_heif_to_jpeg_def dimension_violation_def)

lemma double_round_big1: "double_round 18446744071430102784 = 18446744071430103040"
proof -
  have "floorlog 2 18446744071430102784 = Suc 63"
    by (rule floorlog2_eq) simp_all
  then show ?thesis
    by (simp add: double_round_def)
qed

lemma double_round_big2: "double_round 55340232214290309120 = 55340232214290309120"
proof -
  have "floorlog 2 55340232214290309120 = Suc 65"
    by (rule floorlog2_eq) simp_all
  then show ?thesis
    by (simp add: double_round_def)
qed

subsection \<open>The example run\<close>

lemmas demo_defs = demo_world_def demo_files_def demo_collaborators_def demo_processor_def
  demo_job_a_def demo_job_b_def

lemma demo_answers: "\<forall>fs x. \<not> os_status_fails demo_collaborators fs x"
  by (simp add: demo_collaborators_def)

lemma demo_mb_a: "memory_mb_of_dimensions 4032 3024 = 138"
proof -
  have "unat ((scast (4032 * 3024 * 3 :: c_int) :: size_t) + scast (4032 * 3024 * 4 :: c_int) + 10 * 1024 * 1024) = 95835136"
    by simp
  then show ?thesis
    by (simp add: memory_mb_of_dimensions_def ceil_mb_small)
qed

lemma demo_mb_b: "memory_mb_of_dimensions 640 480 = 19"
proof -
  have "unat ((scast (640 * 480 * 3 :: c_int) :: size_t) + scast (640 * 480 * 4 :: c_int) + 10 * 1024 * 1024) = 12636160"
    by simp
  then show ?thesis
    by (simp add: memory_mb_of_dimensions_def ceil_mb_small)
qed

lemma demo_estimate_a: "estimate_memory_requirement demo_collaborators demo_files ''a.heic'' = 138"
  by (simp add: estimate_memory_requirement_def heif_open_def demo_collaborators_def demo_files_def demo_mb_a)

lemma demo_estimate_b: "estimate_memory_requirement demo_collaborators demo_files ''b.heic'' = 19"
  by (simp add: estimate_memory_requirement_def heif_open_def demo_collaborators_def demo_files_def demo_mb_b)

lemma demo_recognized: "recognized_type ''a.heic''" "recognized_type ''b.heic''" "\<not> recognized_type ''notes.txt''"
  by (simp_all add: recognized_type_def extension_def filename_def c_tolower_def)

lemma demo_reaches_a: "reaches_conversion demo_files ''a.heic'' ''a.jpg'' False"
  by (simp add: reaches_conversion_def demo_recognized fs_exists_def fs_is_regular_file_def demo_files_def)

lemma demo_ctor:
  "new_BatchProcessor 95 False 0 0 0 1 = Some (demo_processor\<lparr>job_queue := []\<rparr>)"
  by (simp add: new_BatchProcessor_def demo_processor_def)

lemma demo_add_jobs:
  "add_job demo_collaborators demo_files ''b.heic'' ''b.jpg''
     (add_job demo_collaborators demo_files ''a.heic'' ''a.jpg'' (demo_processor\<lparr>job_queue := []\<rparr>))
   = demo_processor"
  by (simp add: add_job_def pq_push_def demo_estimate_a demo_estimate_b demo_processor_def
        demo_job_a_def demo_job_b_def)

lemma demo_top: "pq_top [demo_job_a, demo_job_b] = Some demo_job_b" "pq_top [demo_job_a] = Some demo_job_a"
  "pq_top [] = None"
  by (simp_all add: pq_top_def ImageJob_less_def demo_job_a_def demo_job_b_def)

lemma demo_body_b:
  "worker_body demo_collaborators demo_processor demo_job_b demo_world
     = demo_world\<lparr>skip_count := 1,
          trace := [Call_process_file ''b.heic'' ''b.jpg'' 100,
                    Print (Warn_output_exists ''b.jpg'' ''b.heic'')]\<rparr>"
  by (simp add: worker_body_def process_file_def Let_def emit_def fs_exists_def fs_is_regular_file_def
        demo_recognized [unfolded recognized_type_def] demo_defs)

lemma demo_dims_a: "dimension_violation cl fs i 0 0 = None"
  by (simp add: dimension_violation_def)

lemma demo_convert_a:
  "convert_heif_to_jpeg demo_collaborators ''a.heic'' ''a.jpg'' 95 0 0 100 (demo_world\<lparr>skip_count := k, trace := t\<rparr>)
    = (False, demo_world\<lparr>skip_count := k, trace := t @ [Call_convert_heif_to_jpeg ''a.heic'' ''a.jpg'' 100,
                    Print (Converting ''a.heic'' ''a.jpg''),
                    Print (Err_memory_exceeds 138 100)]\<rparr>)"
  by (simp add: convert_heif_to_jpeg_def emit_def demo_world_def demo_estimate_a demo_dims_a)

lemma demo_process_a:
  "process_file demo_collaborators ''a.heic'' ''a.jpg'' 95 False 0 0 100 (demo_world\<lparr>skip_count := k, trace := t\<rparr>)
    = demo_world\<lparr>skip_count := k, fail_count := 1,
         trace := t @ [Call_process_file ''a.heic'' ''a.jpg'' 100,
                    Call_convert_heif_to_jpeg ''a.heic'' ''a.jpg'' 100,
                    Print (Converting ''a.heic'' ''a.jpg''),
                    Print (Err_memory_exceeds 138 100)]\<rparr>"
proof -
  have e: "emit (Call_process_file ''a.heic'' ''a.jpg'' 100) (demo_world\<lparr>skip_count := k, trace := t\<rparr>)
      = demo_world\<lparr>skip_count := k, trace := t @ [Call_process_file ''a.heic'' ''a.jpg'' 100]\<rparr>"
    by (simp add: emit_def)
  have f: "fs_exists demo_files ''a.heic''" "fs_is_regular_file demo_files ''a.heic''"
     "\<not> fs_exists demo_files ''a.jpg''"
    by (simp_all add: fs_exists_def fs_is_regular_file_def demo_files_def)
  have x: "map c_tolower (extension ''a.heic'') = ''.heic''"
    by (simp add: extension_def filename_def c_tolower_def)
  have w: "files (demo_world\<lparr>skip_count := k, trace := u\<rparr>) = demo_files" for u
    by (simp add: demo_world_def)
  show ?thesis
    unfolding process_file_def Let_def e w x
    using f by (simp add: demo_convert_a) (simp add: demo_world_def)
qed

lemma demo_body_a:
  "worker_body demo_collaborators (demo_processor\<lparr>job_queue := jq\<rparr>) demo_job_a
     (demo_world\<lparr>skip_count := k, trace := t\<rparr>)
     = demo_world\<lparr>skip_count := k, fail_count := 1,
          trace := t @ [Print (Warn_exceeds_limit ''a.heic'' 138 100),
                    Call_process_file ''a.heic'' ''a.jpg'' 100,
                    Call_convert_heif_to_jpeg ''a.heic'' ''a.jpg'' 100,
                    Print (Converting ''a.heic'' ''a.jpg''),
                    Print (Err_memory_exceeds 138 100)]\<rparr>"
proof -
  have e: "emit (Print (Warn_exceeds_limit ''a.heic'' 138 100)) (demo_world\<lparr>skip_count := k, trace := t\<rparr>)
      = demo_world\<lparr>skip_count := k, trace := t @ [Print (Warn_exceeds_limit ''a.heic'' 138 100)]\<rparr>"
    by (simp add: emit_def)
  have w: "worker_body demo_collaborators (demo_processor\<lparr>job_queue := jq\<rparr>) demo_job_a
     (demo_world\<lparr>skip_count := k, trace := t\<rparr>)
     = process_file demo_collaborators ''a.heic'' ''a.jpg'' 95 False 0 0 100
         (emit (Print (Warn_exceeds_limit ''a.heic'' 138 100)) (demo_world\<lparr>skip_count := k, trace := t\<rparr>))"
    by (simp add: worker_body_def demo_processor_def demo_job_a_def)
  show ?thesis
    unfolding w e by (simp add: demo_process_a)
qed

lemma demo_run:
  "worker_thread demo_collaborators demo_processor demo_world
     = Some (demo_world\<lparr>skip_count := 1, fail_count := 1,
          trace := [Call_process_file ''b.heic'' ''b.jpg'' 100,
                    Print (Warn_output_exists ''b.jpg'' ''b.heic''),
                    Print (Warn_exceeds_limit ''a.heic'' 138 100),
                    Call_process_file ''a.heic'' ''a.jpg'' 100,
                    Call_convert_heif_to_jpeg ''a.heic'' ''a.jpg'' 100,
                    Print (Converting ''a.heic'' ''a.jpg''),
                    Print (Err_memory_exceeds 138 100)]\<rparr>)"
proof -
  have q: "job_queue demo_processor = [demo_job_a, demo_job_b]" by (simp add: demo_processor_def)
  have neq: "demo_job_b \<noteq> demo_job_a" by (simp add: demo_job_a_def demo_job_b_def)
  have b: "worker_body_or_terminate demo_collaborators bp j w = Some (worker_body demo_collaborators bp j w)"
    for bp j w using demo_answers by (rule status_answers)
  have 1: "worker_thread demo_collaborators demo_processor demo_world
      = worker_thread demo_collaborators (demo_processor\<lparr>job_queue := [demo_job_a]\<rparr>)
          (worker_body demo_collaborators demo_processor demo_job_b demo_world)"
    by (subst worker_thread.simps) (simp add: q demo_top neq b)
  have 2: "worker_thread demo_collaborators (demo_processor\<lparr>job_queue := [demo_job_a]\<rparr>) w
      = worker_thread demo_collaborators (demo_processor\<lparr>job_queue := []\<rparr>)
          (worker_body demo_collaborators (demo_processor\<lparr>job_queue := [demo_job_a]\<rparr>) demo_job_a w)" for w
    by (subst worker_thread.simps) (simp add: demo_top b)
  have 3: "worker_thread demo_collaborators (demo_processor\<lparr>job_queue := []\<rparr>) w = Some w" for w
    by (subst worker_thread.simps) (simp add: demo_top)
  show ?thesis
    unfolding 1 2 3 demo_body_b by (simp add: demo_body_a)
qed

lemma demo_never_terminates:
  "\<not> process_file_terminates demo_collaborators fs i out force mw mh mm"
  by (simp add: process_file_terminates_def conversion_terminates_def demo_answers)

lemma demo_converts_a:
  "converts demo_collaborators (files demo_world) ''a.heic'' ''a.jpg'' 95 0 0 0"
  "\<not> converts demo_collaborators (files demo_world) ''a.heic'' ''a.jpg'' 95 0 0 100"
proof -
  show "\<not> converts demo_collaborators (files demo_world) ''a.heic'' ''a.jpg'' 95 0 0 100"
    by (simp add: converts_def demo_world_def demo_estimate_a)
  have "parent_path ''a.jpg'' = []" by (simp add: parent_path_def)
  then show "converts demo_collaborators (files demo_world) ''a.heic'' ''a.jpg'' 95 0 0 0"
    by (simp add: converts_def demo_dims_a decodes_def fopen_wb_def demo_world_def demo_files_def
          demo_collaborators_def)
qed

lemma demo_long_name:
  "process_file_terminates (demo_collaborators\<lparr>os_status_fails := (\<lambda>fs p. 255 < length p)\<rparr>) fs
     (replicate 300 CHR ''x'') out force mw mh mm"
  by (simp add: process_file_terminates_def)

subsection \<open>C1: the floor of the per-worker ceiling\<close>

lemma unat_ucast_thread_count: "unat (ucast (n :: c_uint) :: size_t) = unat n"
  by (simp add: unsigned_ucast_eq take_bit_nat_eq_self unsigned_less [THEN less_trans])

lemma unat_max_word: "unat (max (a :: size_t) b) = max (unat a) (unat b)"
  by (simp add: max_def word_le_nat_alt)

text \<open>
  Claim C1. For every total budget and every worker count of at least 1, the constructor
  succeeds and sets the per-worker ceiling to \<open>max 100 (total div workers)\<close> (integer
  division), which is at least 100; a budget of 50 MB shared by 4 workers gives 100.
\<close>

theorem C1_per_worker_ceiling:
  assumes "1 \<le> unat worker_count"
  shows "\<exists>bp. new_BatchProcessor q force mw mh total_budget_mb worker_count = Some bp
           \<and> unat (memory_per_thread_mb bp)
               = max 100 (unat total_budget_mb div unat worker_count)
           \<and> 100 \<le> unat (memory_per_thread_mb bp)
           \<and> (total_budget_mb = 50 \<and> worker_count = 4 \<longrightarrow> memory_per_thread_mb bp = 100)"
proof -
  from assms have nz: "worker_count \<noteq> 0"
    by (auto simp: unat_eq_0)
  have "unat (max 100 (total_budget_mb div ucast worker_count) :: size_t)
          = max 100 (unat total_budget_mb div unat worker_count)"
    by (simp add: unat_max_word unat_div unat_ucast_thread_count)
  moreover have "max 100 ((50 :: size_t) div ucast (4 :: c_uint)) = 100"
    by simp
  ultimately show ?thesis
    using nz by (auto simp: new_BatchProcessor_def)
qed

theorem C1_per_worker_ceiling_witness:
  "1 \<le> unat (4 :: c_uint)
   \<and> (\<exists>bp. new_BatchProcessor 95 False 0 0 50 4 = Some bp
          \<and> unat (memory_per_thread_mb bp) = 100)"
  using C1_per_worker_ceiling [of 4 95 False 0 0 50] by auto

subsection \<open>C2: a budget of 0\<close>

text \<open>
  The constructor applies the floor to a budget of 0 as to any budget up to 100 MB: with at
  least one worker the processor is the one of a budget of 100 MB, every job is passed to
  \<^verbatim>\<open>process_file\<close> with the limit 100, the worker prints the warning for a job whose
  estimate is above 100 MB, and a job that reaches the conversion with an estimate above
  100 MB is counted as failed without being decoded.
\<close>

lemma zero_budget_is_budget_100:
  assumes workers: "n \<noteq> 0"
  shows "\<exists>bp. new_BatchProcessor q force mw mh 0 n = Some bp
           \<and> new_BatchProcessor q force mw mh 100 n = Some bp
           \<and> memory_per_thread_mb bp = 100
           \<and> (\<forall>jobs j s.
                 process_file_calls (trace (worker_body cl (bp\<lparr>job_queue := jobs\<rparr>) j s))
                   = process_file_calls (trace s) @ [(input_path j, output_path j, 100)])
           \<and> (\<forall>jobs j s.
                 100 < estimated_memory_mb j
                 \<longrightarrow> (\<exists>es. trace (worker_body cl (bp\<lparr>job_queue := jobs\<rparr>) j s)
                            = trace s
                              @ Print (Warn_exceeds_limit (input_path j) (estimated_memory_mb j) 100)
                              # Call_process_file (input_path j) (output_path j) 100 # es))
           \<and> (\<forall>jobs j s.
                 100 < estimate_memory_requirement cl (files s) (input_path j)
                 \<and> reaches_conversion (files s) (input_path j) (output_path j) force
                 \<longrightarrow> tally Failed s (worker_body cl (bp\<lparr>job_queue := jobs\<rparr>) j s)
                     \<and> decode_calls (trace (worker_body cl (bp\<lparr>job_queue := jobs\<rparr>) j s))
                         = decode_calls (trace s))"
proof -
  define bp where "bp = \<lparr> job_queue = [], quality = q, force_overwrite = force,
                  max_width = mw, max_height = mh, memory_per_thread_mb = 100, thread_count = n \<rparr>"
  have a: "new_BatchProcessor q force mw mh 0 n = Some bp"
    using workers ceiling_small_budget [OF workers, of 0] by (simp add: new_BatchProcessor_def bp_def)
  have b: "new_BatchProcessor q force mw mh 100 n = Some bp"
    using workers ceiling_small_budget [OF workers, of 100] by (simp add: new_BatchProcessor_def bp_def)
  have c: "memory_per_thread_mb bp = 100" by (simp add: bp_def)
  have d: "\<forall>jobs j s.
                 process_file_calls (trace (worker_body cl (bp\<lparr>job_queue := jobs\<rparr>) j s))
                   = process_file_calls (trace s) @ [(input_path j, output_path j, 100)]"
    using worker_body_calls [of cl] c by simp
  have w: "\<forall>jobs j s.
                 100 < estimated_memory_mb j
                 \<longrightarrow> (\<exists>es. trace (worker_body cl (bp\<lparr>job_queue := jobs\<rparr>) j s)
                            = trace s
                              @ Print (Warn_exceeds_limit (input_path j) (estimated_memory_mb j) 100)
                              # Call_process_file (input_path j) (output_path j) 100 # es)"
  proof (intro allI impI)
    fix jobs and j :: ImageJob and s
    assume "100 < estimated_memory_mb j"
    then show "\<exists>es. trace (worker_body cl (bp\<lparr>job_queue := jobs\<rparr>) j s)
                            = trace s
                              @ Print (Warn_exceeds_limit (input_path j) (estimated_memory_mb j) 100)
                              # Call_process_file (input_path j) (output_path j) 100 # es"
      using worker_body_trace [of cl "bp\<lparr>job_queue := jobs\<rparr>" j s] c by auto
  qed
  have e: "tally Failed s (worker_body cl (bp\<lparr>job_queue := jobs\<rparr>) j s)
           \<and> decode_calls (trace (worker_body cl (bp\<lparr>job_queue := jobs\<rparr>) j s)) = decode_calls (trace s)"
    if "100 < estimate_memory_requirement cl (files s) (input_path j)
        \<and> reaches_conversion (files s) (input_path j) (output_path j) force" for jobs j s
  proof -
    have p: "0 < memory_per_thread_mb (bp\<lparr>job_queue := jobs\<rparr>)" by (simp add: bp_def)
    have x: "memory_per_thread_mb (bp\<lparr>job_queue := jobs\<rparr>)
        < estimate_memory_requirement cl (files s) (input_path j)"
      using that by (simp add: bp_def)
    have r: "reaches_conversion (files s) (input_path j) (output_path j)
        (force_overwrite (bp\<lparr>job_queue := jobs\<rparr>))"
      using that by (simp add: bp_def)
    from worker_body_refused(1,2) [OF p x r] show ?thesis by simp
  qed
  from a b c d w e show ?thesis by blast
qed

text \<open>
  Claim C2. The claim takes a budget of 0 for no limit, as the comment of line 613 does
  (\<^verbatim>\<open>0 = unlimited\<close>), and the conversion makes no memory check when its limit is 0
  (line 303). The constructor has no such case: for a budget of 0 and one thread the ceiling
  is the floor of 100 MB. In the example world the worker compares the estimate of the job
  for \<^verbatim>\<open>a.heic\<close> (138 MB) with this ceiling, prints the warning, passes the limit 100 to
  \<^verbatim>\<open>process_file\<close>, and the memory check of the conversion refuses the job: it is
  counted as failed and never decoded. The same call without a limit
  (\<^verbatim>\<open>max_memory_mb = 0\<close>) decodes the file and succeeds.
\<close>

theorem C2_zero_budget_refuses:
  "new_BatchProcessor 95 False 0 0 0 1 = Some (demo_processor\<lparr>job_queue := []\<rparr>)
   \<and> memory_per_thread_mb demo_processor = 100
   \<and> estimated_memory_mb demo_job_a
       = estimate_memory_requirement demo_collaborators (files demo_world) (input_path demo_job_a)
   \<and> worker_body_or_terminate demo_collaborators demo_processor demo_job_a demo_world
       = Some (demo_world\<lparr>fail_count := 1,
           trace := [Print (Warn_exceeds_limit ''a.heic'' 138 100),
                     Call_process_file ''a.heic'' ''a.jpg'' 100,
                     Call_convert_heif_to_jpeg ''a.heic'' ''a.jpg'' 100,
                     Print (Converting ''a.heic'' ''a.jpg''),
                     Print (Err_memory_exceeds 138 100)]\<rparr>)
   \<and> (\<exists>s'. process_file_or_terminate demo_collaborators ''a.heic'' ''a.jpg'' 95 False 0 0 0 demo_world
             = Some s'
          \<and> success_count s' = 1 \<and> fail_count s' = 0
          \<and> decode_calls (trace s') = [''a.heic''])"
proof -
  have est: "estimated_memory_mb demo_job_a
       = estimate_memory_requirement demo_collaborators (files demo_world) (input_path demo_job_a)"
    by (simp add: demo_job_a_def demo_world_def demo_estimate_a)
  have b: "worker_body demo_collaborators demo_processor demo_job_a demo_world
       = demo_world\<lparr>fail_count := 1,
           trace := [Print (Warn_exceeds_limit ''a.heic'' 138 100),
                     Call_process_file ''a.heic'' ''a.jpg'' 100,
                     Call_convert_heif_to_jpeg ''a.heic'' ''a.jpg'' 100,
                     Print (Converting ''a.heic'' ''a.jpg''),
                     Print (Err_memory_exceeds 138 100)]\<rparr>"
    using demo_body_a [where jq = "job_queue demo_processor" and k = 0 and t = "[]"]
    by (simp add: demo_world_def)
  have x: "map c_tolower (extension ''a.heic'') = ''.heic''"
    by (simp add: extension_def filename_def c_tolower_def)
  have f: "fs_exists demo_files ''a.heic''" "fs_is_regular_file demo_files ''a.heic''"
     "\<not> fs_exists demo_files ''a.jpg''"
    by (simp_all add: fs_exists_def fs_is_regular_file_def demo_files_def)
  have cv: "convert_heif_to_jpeg demo_collaborators ''a.heic'' ''a.jpg'' 95 0 0 0
              (demo_world\<lparr>trace := [Call_process_file ''a.heic'' ''a.jpg'' 0]\<rparr>)
      = (True, demo_world\<lparr>files := demo_files(''a.jpg'' \<mapsto> RegularFile [255, 216]),
           trace := [Call_process_file ''a.heic'' ''a.jpg'' 0,
                     Call_convert_heif_to_jpeg ''a.heic'' ''a.jpg'' 0,
                     Print (Converting ''a.heic'' ''a.jpg''),
                     Call_heif_decode_image ''a.heic'',
                     Print (Saved ''a.jpg'')]\<rparr>)"
    by (simp add: convert_heif_to_jpeg_def demo_dims_a decode_and_encode_def write_output_def
          encode_jpeg_def fopen_wb_def fwrite_all_def parent_path_def emit_def Let_def
          demo_world_def demo_files_def demo_collaborators_def)
  have e: "emit (Call_process_file ''a.heic'' ''a.jpg'' 0) demo_world
      = demo_world\<lparr>trace := [Call_process_file ''a.heic'' ''a.jpg'' 0]\<rparr>"
    by (simp add: emit_def demo_world_def)
  have w: "files (demo_world\<lparr>trace := u\<rparr>) = demo_files" for u
    by (simp add: demo_world_def)
  have p: "process_file demo_collaborators ''a.heic'' ''a.jpg'' 95 False 0 0 0 demo_world
      = demo_world\<lparr>files := demo_files(''a.jpg'' \<mapsto> RegularFile [255, 216]),
           success_count := 1,
           trace := [Call_process_file ''a.heic'' ''a.jpg'' 0,
                     Call_convert_heif_to_jpeg ''a.heic'' ''a.jpg'' 0,
                     Print (Converting ''a.heic'' ''a.jpg''),
                     Call_heif_decode_image ''a.heic'',
                     Print (Saved ''a.jpg'')]\<rparr>"
    unfolding process_file_def Let_def e w x
    using f by (simp add: cv) (simp add: demo_world_def)
  have wb: "worker_body_or_terminate demo_collaborators demo_processor demo_job_a demo_world
      = Some (worker_body demo_collaborators demo_processor demo_job_a demo_world)"
    using demo_answers by (rule status_answers)
  have pf: "process_file_or_terminate demo_collaborators ''a.heic'' ''a.jpg'' 95 False 0 0 0 demo_world
      = Some (process_file demo_collaborators ''a.heic'' ''a.jpg'' 95 False 0 0 0 demo_world)"
    by (simp add: process_file_or_terminate_eq demo_never_terminates)
  have u: "success_count (process_file demo_collaborators ''a.heic'' ''a.jpg'' 95 False 0 0 0 demo_world) = 1
      \<and> fail_count (process_file demo_collaborators ''a.heic'' ''a.jpg'' 95 False 0 0 0 demo_world) = 0
      \<and> decode_calls (trace (process_file demo_collaborators ''a.heic'' ''a.jpg'' 95 False 0 0 0 demo_world))
          = [''a.heic'']"
    unfolding p by (simp add: demo_world_def)
  have m: "memory_per_thread_mb demo_processor = 100" by (simp add: demo_processor_def)
  from pf u have ex: "\<exists>s'. process_file_or_terminate demo_collaborators ''a.heic'' ''a.jpg'' 95 False 0 0 0
             demo_world = Some s'
          \<and> success_count s' = 1 \<and> fail_count s' = 0
          \<and> decode_calls (trace s') = [''a.heic'']"
    by blast
  from demo_ctor m est wb [unfolded b] ex show ?thesis by (intro conjI)
qed

subsection \<open>C3: the cheapest job first\<close>

text \<open>
  Claim C3. The top of a non-empty queue is one of its jobs with the smallest estimate, and
  \<open>pq_pop\<close> removes exactly it. In every state of a pool, with any number of workers and
  so with one, the jobs taken so far are in non-decreasing order of their estimate; when the
  estimates of the queue are pairwise distinct the order is strictly increasing; and when
  \<^verbatim>\<open>process_all\<close> has returned, the jobs taken are the jobs that were queued.
\<close>

theorem C3_cost_order:
  assumes "(worker_step cl)\<^sup>*\<^sup>* (process_all_start bp s) p"
  shows "(pq_top q = Some j \<longrightarrow>
            j \<in> set q \<and> (\<forall>x \<in> set q. estimated_memory_mb j \<le> estimated_memory_mb x)
            \<and> pq_pop q = Some (remove1 j q) \<and> mset q = add_mset j (mset (remove1 j q)))
       \<and> (q \<noteq> [] \<longrightarrow> pq_top q \<noteq> None)
       \<and> sorted_wrt (\<le>) (map estimated_memory_mb (dequeued p))
       \<and> (distinct (map estimated_memory_mb (job_queue bp))
            \<longrightarrow> sorted_wrt (<) (map estimated_memory_mb (dequeued p)))
       \<and> (process_all_returned p \<and> thread_count bp \<noteq> 0 \<longrightarrow> mset (dequeued p) = mset (job_queue bp))"
proof -
  have top: "j \<in> set q \<and> (\<forall>x \<in> set q. estimated_memory_mb j \<le> estimated_memory_mb x)
            \<and> pq_pop q = Some (remove1 j q) \<and> mset q = add_mset j (mset (remove1 j q))"
    if t: "pq_top q = Some j"
  proof -
    have "j \<in> set q" using t by (rule pq_top_in)
    moreover have "\<forall>x \<in> set q. estimated_memory_mb j \<le> estimated_memory_mb x"
      using t pq_top_min by blast
    moreover have "pq_pop q = Some (remove1 j q)" using t by (simp add: pq_pop_def)
    ultimately show ?thesis by simp
  qed
  have ne: "q \<noteq> [] \<longrightarrow> pq_top q \<noteq> None" by (simp add: pq_top_None)
  from assms have inv: "order_inv p" "dequeued_inv bp p"
    using order_inv_run by blast+
  have sorted: "sorted_wrt (\<le>) (map estimated_memory_mb (dequeued p))"
    using inv(1) by (simp add: order_inv_def)
  have strict: "distinct (map estimated_memory_mb (job_queue bp))
            \<longrightarrow> sorted_wrt (<) (map estimated_memory_mb (dequeued p))"
    using dequeued_strict [OF inv] by blast
  have all: "mset (dequeued p) = mset (job_queue bp)" if "process_all_returned p \<and> thread_count bp \<noteq> 0"
  proof -
    have "process_all_run cl bp s p" using assms that by (simp add: process_all_run_def)
    then have "job_queue (processor p) = []" using returned_all_jobs(2) that by blast
    with inv(2) show ?thesis by (simp add: dequeued_inv_def)
  qed
  from top ne sorted strict all show ?thesis by blast
qed

theorem C3_cost_order_witness:
  "\<exists>p. process_all_run demo_collaborators demo_processor demo_world p
      \<and> pq_top (job_queue demo_processor) = Some demo_job_b
      \<and> pq_pop (job_queue demo_processor) = Some [demo_job_a]
      \<and> sorted_wrt (<) (map estimated_memory_mb (dequeued p))
      \<and> mset (dequeued p) = {#demo_job_a, demo_job_b#}"
proof -
  have w: "thread_count demo_processor \<noteq> 0" by (simp add: demo_processor_def)
  from process_all_can_return [OF w demo_run] obtain p where
    run: "process_all_run demo_collaborators demo_processor demo_world p" by blast
  then have steps: "(worker_step demo_collaborators)\<^sup>*\<^sup>* (process_all_start demo_processor demo_world) p"
    and ret: "process_all_returned p" by (simp_all add: process_all_run_def)
  have d: "distinct (map estimated_memory_mb (job_queue demo_processor))"
    by (simp add: demo_processor_def demo_job_a_def demo_job_b_def)
  have t: "pq_top (job_queue demo_processor) = Some demo_job_b"
    by (simp add: pq_top_def ImageJob_less_def demo_processor_def demo_job_a_def demo_job_b_def)
  have neq: "demo_job_a \<noteq> demo_job_b" by (simp add: demo_job_a_def demo_job_b_def)
  from C3_cost_order [OF steps, of "job_queue demo_processor" demo_job_b] d t ret w neq
  have "pq_pop (job_queue demo_processor) = Some [demo_job_a]
      \<and> sorted_wrt (<) (map estimated_memory_mb (dequeued p))
      \<and> mset (dequeued p) = {#demo_job_a, demo_job_b#}"
    by (simp add: demo_processor_def)
  with run t show ?thesis by blast
qed

subsection \<open>C4: every job counted once\<close>

text \<open>
  Claim C4. \<^verbatim>\<open>main\<close> takes its jobs from \<^verbatim>\<open>argv\<close>, so there are fewer than
  \<open>2 ^ 31\<close> of them, and the counters start at 0. When \<^verbatim>\<open>process_all\<close> has returned,
  on any schedule of any number of workers, the three counters add up to the number of jobs
  queued; the completed jobs are exactly the queued ones, each once; each counter is the
  number of completed jobs with that outcome; and \<^verbatim>\<open>process_file\<close> was called once for
  each of them.
\<close>

theorem C4_exactly_once:
  assumes run: "process_all_run cl bp s p"
    and zero: "success_count s = 0" "fail_count s = 0" "skip_count s = 0"
    and workers: "thread_count bp \<noteq> 0"
    and size: "length (job_queue bp) < 2 ^ 31"
  shows "sint (success_count (shared p)) + sint (fail_count (shared p)) + sint (skip_count (shared p))
           = int (length (job_queue bp))
       \<and> mset (map fst (completed p)) = mset (job_queue bp)
       \<and> sint (success_count (shared p)) = int (count_outcome Succeeded (completed p))
       \<and> sint (fail_count (shared p)) = int (count_outcome Failed (completed p))
       \<and> sint (skip_count (shared p)) = int (count_outcome Skipped (completed p))
       \<and> process_file_calls (trace (shared p))
           = process_file_calls (trace s)
             @ map (\<lambda>c. (input_path (fst c), output_path (fst c), memory_per_thread_mb bp)) (completed p)"
proof -
  note c = run_counters [OF run zero workers size]
  have "int (count_outcome Succeeded (completed p)) + int (count_outcome Failed (completed p))
          + int (count_outcome Skipped (completed p)) = int (length (job_queue bp))"
    using count_outcome_total [of "completed p"] c(4) by linarith
  moreover have "mset (map fst (completed p)) = mset (job_queue bp)"
    using run workers by (rule returned_all_jobs(1))
  moreover have "counters_inv bp s p"
    using run by (auto simp: process_all_run_def intro: counters_inv_run)
  ultimately show ?thesis
    using c(1-3) by (simp add: counters_inv_def)
qed

theorem C4_exactly_once_witness:
  "\<exists>p. process_all_run demo_collaborators demo_processor demo_world p
      \<and> sint (success_count (shared p)) + sint (fail_count (shared p)) + sint (skip_count (shared p)) = 2
      \<and> mset (map fst (completed p)) = {#demo_job_a, demo_job_b#}
      \<and> sint (fail_count (shared p)) = 1 \<and> sint (skip_count (shared p)) = 1"
proof -
  have w: "thread_count demo_processor \<noteq> 0" by (simp add: demo_processor_def)
  from process_all_can_return [OF w demo_run] obtain p where
    run: "process_all_run demo_collaborators demo_processor demo_world p"
    and sh: "Some (shared p) = worker_thread demo_collaborators demo_processor demo_world"
    using demo_run by auto
  have z: "success_count demo_world = 0" "fail_count demo_world = 0" "skip_count demo_world = 0"
    by (simp_all add: demo_world_def)
  have sz: "length (job_queue demo_processor) < 2 ^ 31" by (simp add: demo_processor_def)
  have c: "fail_count (shared p) = 1" "skip_count (shared p) = 1"
    using sh unfolding demo_run by simp_all
  from C4_exactly_once [OF run z w sz] c
  have "sint (success_count (shared p)) + sint (fail_count (shared p)) + sint (skip_count (shared p)) = 2
      \<and> mset (map fst (completed p)) = {#demo_job_a, demo_job_b#}
      \<and> sint (fail_count (shared p)) = 1 \<and> sint (skip_count (shared p)) = 1"
    by (simp add: demo_processor_def)
  with run show ?thesis by blast
qed

subsection \<open>C5: a job above the ceiling is still attempted\<close>



subsection \<open>C6: the estimate\<close>

text \<open>
  Claim C6 gives the estimate as \<open>\<lceil>1.5 * (w * h * 3 + w * h * 4 + 10 * 2^20) / 2^20\<rceil>\<close> for
  every readable image. \<open>memory_mb_in_range\<close> above proves this when \<open>w * h * 4\<close> fits a
  32-bit \<^verbatim>\<open>int\<close>, \<open>estimate_unreadable\<close> gives 0 for a file that cannot be read, and
  \<open>zero_cost_admitted\<close> shows that an estimate of 0 passes the memory check. For an image
  of 30000 x 30000 pixels, which libheif accepts, the two \<^verbatim>\<open>int\<close> products overflow:
  the estimate is 26388279063364 MB where the formula gives 9028.
\<close>

theorem C6_estimate_overflow:
  "memory_mb_of_dimensions 30000 30000 = 26388279063364
   \<and> \<lceil>1.5 * real_of_int (30000 * 30000 * 3 + 30000 * 30000 * 4 + 10 * 1024 * 1024)
        / (1024 * 1024)\<rceil> = (9028 :: int)"
proof -
  have s: "unat ((scast (30000 * 30000 * 3 :: c_int) :: size_t) + scast (30000 * 30000 * 4 :: c_int)
             + 10 * 1024 * 1024) = 18446744071430102784"
    by simp
  have c: "ceil_mb 18446744071430102784 = 26388279063364"
    unfolding ceil_mb_def double_round_big1 by (simp add: double_round_big2)
  have a: "memory_mb_of_dimensions 30000 30000 = 26388279063364"
    unfolding memory_mb_of_dimensions_def Let_def s c by simp
  have "1.5 * real_of_int (30000 * 30000 * 3 + 30000 * 30000 * 4 + 10 * 1024 * 1024)
        / (1024 * 1024) = real (3 * 6310485760) / 2 ^ 21"
    by simp
  then have "\<lceil>1.5 * real_of_int (30000 * 30000 * 3 + 30000 * 30000 * 4 + 10 * 1024 * 1024)
        / (1024 * 1024)\<rceil> = \<lceil>real (3 * 6310485760) / 2 ^ 21\<rceil>"
    by (rule arg_cong)
  also have "\<dots> = int ((3 * 6310485760 + 2 ^ 21 - 1) div 2 ^ 21)" by (rule ceil_div)
  also have "\<dots> = 9028" by simp
  finally show ?thesis using a by simp
qed

subsection \<open>C7: skipping twice\<close>

text \<open>
  Claim C7 says that a job whose destination exists is skipped when nothing may be overwritten.
  \<^verbatim>\<open>process_file\<close> looks at the source first: a job whose source is missing is counted
  as failed although its destination exists.
\<close>

theorem C7_counterexample:
  "fs_exists (files demo_world) (output_path demo_job_missing)
   \<and> \<not> force_overwrite demo_processor
   \<and> skip_count (worker_body demo_collaborators demo_processor demo_job_missing demo_world) = 0
   \<and> fail_count (worker_body demo_collaborators demo_processor demo_job_missing demo_world) = 1"
  by (simp add: worker_body_def process_file_def Let_def emit_def fs_exists_def
        demo_world_def demo_files_def demo_processor_def demo_job_missing_def)

text \<open>
  Claim C7, as amended. Let the source of a job be a regular file and its destination exist
  before the first of two runs without overwriting. Then the job is recorded as skipped in
  both runs, on any schedule, the destination holds the same node after each run, and the
  call that skips the job changes no file and does not call \<^verbatim>\<open>convert_heif_to_jpeg\<close>.
\<close>

theorem C7_idempotent_skip:
  assumes run1: "process_all_run cl bp1 s p1"
    and run2: "process_all_run cl bp2 (shared p1) p2"
    and nf: "\<not> force_overwrite bp1" "\<not> force_overwrite bp2"
    and workers: "thread_count bp1 \<noteq> 0" "thread_count bp2 \<noteq> 0"
    and j: "j \<in> set (job_queue bp1)" "j \<in> set (job_queue bp2)"
    and src: "fs_is_regular_file (files s) (input_path j)"
    and dst: "files s (output_path j) = Some d"
  shows "(j, Skipped) \<in> set (completed p1) \<and> (j, Skipped) \<in> set (completed p2)
       \<and> (\<forall>c \<in> set (completed p1) \<union> set (completed p2). fst c = j \<longrightarrow> snd c = Skipped)
       \<and> files (shared p1) (output_path j) = Some d
       \<and> files (shared p2) (output_path j) = Some d
       \<and> (\<forall>w. fs_is_regular_file (files w) (input_path j) \<and> fs_exists (files w) (output_path j)
             \<longrightarrow> outcome_between w (worker_body cl bp1 j w) = Skipped
                 \<and> files (worker_body cl bp1 j w) = files w
                 \<and> convert_calls (trace (worker_body cl bp1 j w)) = convert_calls (trace w))"
proof -
  have ex: "fs_exists (files s) (output_path j)" using dst by (simp add: fs_exists_def)
  from run1 nf(1) have inv1: "files_inv s p1"
    using files_inv_run by (auto simp: process_all_run_def)
  then have keep1: "\<forall>x n. files s x = Some n \<longrightarrow> files (shared p1) x = Some n"
    by (simp add: files_inv_def)
  from run2 nf(2) have inv2: "files_inv (shared p1) p2"
    using files_inv_run by (auto simp: process_all_run_def)
  then have keep2: "\<forall>x n. files (shared p1) x = Some n \<longrightarrow> files (shared p2) x = Some n"
    by (simp add: files_inv_def)
  have src1: "fs_is_regular_file (files (shared p1)) (input_path j)"
    using keep1 src by (rule regular_kept(1))
  have ex1: "fs_exists (files (shared p1)) (output_path j)"
    using keep1 ex by (rule regular_kept(2))
  have sk1: "snd c = Skipped" if "c \<in> set (completed p1)" "fst c = j" for c
    using inv1 that src ex by (auto simp: files_inv_def)
  have sk2: "snd c = Skipped" if "c \<in> set (completed p2)" "fst c = j" for c
    using inv2 that src1 ex1 by (auto simp: files_inv_def)
  have in1: "(j, Skipped) \<in> set (completed p1)"
  proof -
    have "mset (map fst (completed p1)) = mset (job_queue bp1)"
      using run1 workers(1) by (rule returned_all_jobs(1))
    then have "set (map fst (completed p1)) = set (job_queue bp1)" by (rule mset_eq_setD)
    with j(1) have "j \<in> fst ` set (completed p1)" by simp
    then obtain c where c: "c \<in> set (completed p1)" "fst c = j" by (auto simp: image_iff)
    with sk1 [OF c] show ?thesis by (cases c) auto
  qed
  have in2: "(j, Skipped) \<in> set (completed p2)"
  proof -
    have "mset (map fst (completed p2)) = mset (job_queue bp2)"
      using run2 workers(2) by (rule returned_all_jobs(1))
    then have "set (map fst (completed p2)) = set (job_queue bp2)" by (rule mset_eq_setD)
    with j(2) have "j \<in> fst ` set (completed p2)" by simp
    then obtain c where c: "c \<in> set (completed p2)" "fst c = j" by (auto simp: image_iff)
    with sk2 [OF c] show ?thesis by (cases c) auto
  qed
  have all: "\<forall>c \<in> set (completed p1) \<union> set (completed p2). fst c = j \<longrightarrow> snd c = Skipped"
    using sk1 sk2 by blast
  have f1: "files (shared p1) (output_path j) = Some d" using keep1 dst by blast
  have f2: "files (shared p2) (output_path j) = Some d" using keep2 f1 by blast
  have job: "\<forall>w. fs_is_regular_file (files w) (input_path j) \<and> fs_exists (files w) (output_path j)
             \<longrightarrow> outcome_between w (worker_body cl bp1 j w) = Skipped
                 \<and> files (worker_body cl bp1 j w) = files w
                 \<and> convert_calls (trace (worker_body cl bp1 j w)) = convert_calls (trace w)"
    using worker_body_skips [OF nf(1)] by blast
  from in1 in2 all f1 f2 job show ?thesis by (intro conjI)
qed

theorem C7_idempotent_skip_witness:
  "\<exists>p1 p2. process_all_run demo_collaborators demo_processor demo_world p1
      \<and> process_all_run demo_collaborators demo_processor (shared p1) p2
      \<and> (demo_job_b, Skipped) \<in> set (completed p1) \<and> (demo_job_b, Skipped) \<in> set (completed p2)
      \<and> files (shared p2) ''b.jpg'' = Some (RegularFile [9])"
proof -
  have w: "thread_count demo_processor \<noteq> 0" by (simp add: demo_processor_def)
  from process_all_can_return [OF w demo_run] obtain p1 where
    run1: "process_all_run demo_collaborators demo_processor demo_world p1" by blast
  from worker_thread_returns [OF demo_answers] obtain w2 where
    w2: "worker_thread demo_collaborators demo_processor (shared p1) = Some w2" by blast
  from process_all_can_return [OF w w2] obtain p2 where
    run2: "process_all_run demo_collaborators demo_processor (shared p1) p2" by blast
  have nf: "\<not> force_overwrite demo_processor" by (simp add: demo_processor_def)
  have j: "demo_job_b \<in> set (job_queue demo_processor)" by (simp add: demo_processor_def)
  have src: "fs_is_regular_file (files demo_world) (input_path demo_job_b)"
    by (simp add: fs_is_regular_file_def demo_world_def demo_files_def demo_job_b_def)
  have dst: "files demo_world (output_path demo_job_b) = Some (RegularFile [9])"
    by (simp add: demo_world_def demo_files_def demo_job_b_def)
  from C7_idempotent_skip [OF run1 run2 nf nf w w j j src dst]
  have "(demo_job_b, Skipped) \<in> set (completed p1) \<and> (demo_job_b, Skipped) \<in> set (completed p2)
      \<and> files (shared p2) ''b.jpg'' = Some (RegularFile [9])"
    by (simp add: demo_job_b_def)
  with run1 run2 show ?thesis by blast
qed

subsection \<open>C8: skipped or failed\<close>

text \<open>
  Claim C8 says that a job is skipped exactly when its destination exists without permission
  to overwrite or its source has another extension than \<^verbatim>\<open>.heic\<close> or \<^verbatim>\<open>.heif\<close>, that
  every other problem is counted as failed, and that the run continues in every case. A
  missing source with another extension is counted as failed. And when the status of the
  source cannot be read, as for a name of 300 characters where names have at most 255,
  \<^verbatim>\<open>std::filesystem::exists\<close> throws at line 444, nothing catches the exception, and the
  process ends with no counter moved.
\<close>

theorem C8_counterexample:
  "\<not> recognized_type ''notes.txt''
   \<and> (\<exists>s'. process_file_or_terminate demo_collaborators ''notes.txt'' ''notes.jpg'' 95 False 0 0 100 demo_world
             = Some s'
          \<and> skip_count s' = 0 \<and> fail_count s' = 1)
   \<and> process_file_or_terminate (demo_collaborators\<lparr>os_status_fails := (\<lambda>fs p. 255 < length p)\<rparr>)
        (replicate 300 CHR ''x'') ''x.jpg'' 95 False 0 0 100 demo_world = None"
proof -
  have a: "\<not> process_file_terminates demo_collaborators (files demo_world) ''notes.txt'' ''notes.jpg''
      False 0 0 100"
    by (simp add: process_file_terminates_def demo_collaborators_def demo_recognized)
  have b: "skip_count (process_file demo_collaborators ''notes.txt'' ''notes.jpg'' 95 False 0 0 100 demo_world) = 0
   \<and> fail_count (process_file demo_collaborators ''notes.txt'' ''notes.jpg'' 95 False 0 0 100 demo_world) = 1"
    by (simp add: process_file_def Let_def emit_def fs_exists_def demo_world_def demo_files_def)
  show ?thesis
    using a b by (simp add: process_file_or_terminate_eq demo_long_name demo_recognized)
qed

text \<open>
  Claim C8, as amended. A call of \<^verbatim>\<open>process_file\<close> ends in an uncaught exception, which
  ends the process with no counter moved, exactly when the status of the source cannot be
  read, or the source is a regular file of a recognized type and the status of the
  destination cannot be read, or the job reaches the writing of the output, the destination
  has a directory part, and the status of that directory cannot be read. Every other call
  returns and moves exactly one counter. The job is then skipped exactly when its source
  exists and is a regular file and either the extension is not \<^verbatim>\<open>.heic\<close> or
  \<^verbatim>\<open>.heif\<close> (in any case of the letters) or the destination exists without permission to
  overwrite. It succeeds exactly when it reaches the conversion and every stage of the
  conversion passes (\<open>converts\<close>): the dimension check, the memory check, the reading of
  the primary image, the decoding, the creation of a missing output directory, the opening
  of the output file and the encoding; the destination exists afterwards. In every other
  case it is failed. The call is made once per job: there is no retry.
\<close>

theorem C8_outcome_or_termination:
  assumes res: "res = process_file_or_terminate cl i out q force mw mh mm s"
  shows "(res = None \<longleftrightarrow> process_file_terminates cl (files s) i out force mw mh mm)
       \<and> (\<forall>s'. res = Some s' \<longrightarrow>
             tally (outcome_between s s') s s'
           \<and> (outcome_between s s' = Skipped \<longleftrightarrow>
                 fs_exists (files s) i \<and> fs_is_regular_file (files s) i
                 \<and> (\<not> recognized_type i \<or> (fs_exists (files s) out \<and> \<not> force)))
           \<and> (outcome_between s s' = Succeeded \<longleftrightarrow>
                 reaches_conversion (files s) i out force \<and> converts cl (files s) i out q mw mh mm)
           \<and> (outcome_between s s' = Failed \<longleftrightarrow>
                 \<not> fs_exists (files s) i \<or> \<not> fs_is_regular_file (files s) i
                 \<or> (reaches_conversion (files s) i out force \<and> \<not> converts cl (files s) i out q mw mh mm))
           \<and> (outcome_between s s' = Succeeded \<longrightarrow> fs_exists (files s') out)
           \<and> process_file_calls (trace s') = process_file_calls (trace s) @ [(i, out, mm)])"
proof -
  have none: "res = None \<longleftrightarrow> process_file_terminates cl (files s) i out force mw mh mm"
    unfolding res by (simp add: process_file_or_terminate_eq)
  have some: "tally (outcome_between s s') s s'
           \<and> (outcome_between s s' = Skipped \<longleftrightarrow>
                 fs_exists (files s) i \<and> fs_is_regular_file (files s) i
                 \<and> (\<not> recognized_type i \<or> (fs_exists (files s) out \<and> \<not> force)))
           \<and> (outcome_between s s' = Succeeded \<longleftrightarrow>
                 reaches_conversion (files s) i out force \<and> converts cl (files s) i out q mw mh mm)
           \<and> (outcome_between s s' = Failed \<longleftrightarrow>
                 \<not> fs_exists (files s) i \<or> \<not> fs_is_regular_file (files s) i
                 \<or> (reaches_conversion (files s) i out force \<and> \<not> converts cl (files s) i out q mw mh mm))
           \<and> (outcome_between s s' = Succeeded \<longrightarrow> fs_exists (files s') out)
           \<and> process_file_calls (trace s') = process_file_calls (trace s) @ [(i, out, mm)]"
    if "res = Some s'" for s'
  proof -
    from that have s': "s' = process_file cl i out q force mw mh mm s"
      unfolding res by (simp add: process_file_or_terminate_eq split: if_splits)
    define r where "r = convert_heif_to_jpeg cl i out q mw mh mm (emit (Call_process_file i out mm) s)"
    have fr: "fst r \<longleftrightarrow> converts cl (files s) i out q mw mh mm"
      unfolding r_def by (simp add: convert_fst)
    have t: "tally (outcome_between s s') s s'" unfolding s' by (rule process_file_tally)
    have oc: "outcome_between s s' =
        (if \<not> fs_exists (files s) i \<or> \<not> fs_is_regular_file (files s) i then Failed
         else if \<not> recognized_type i \<or> (fs_exists (files s) out \<and> \<not> force) then Skipped
         else if fst r then Succeeded else Failed)"
    proof (cases rule: process_file_cases [where fs = "files s" and i = i and out = out and force = force])
      case not_found
      from process_file_not_found(1) [OF this, of cl out q force mw mh mm, folded s'] not_found
      show ?thesis by (auto dest: tally_outcome)
    next
      case skip
      from process_file_skip(1) [OF this, of cl q mw mh mm, folded s'] skip
      show ?thesis by (auto dest: tally_outcome)
    next
      case conv
      from process_file_convert(1) [OF conv r_def, of, folded s'] conv
      show ?thesis by (auto simp: reaches_conversion_def dest: tally_outcome)
    qed
    have sk: "outcome_between s s' = Skipped \<longleftrightarrow>
              fs_exists (files s) i \<and> fs_is_regular_file (files s) i
              \<and> (\<not> recognized_type i \<or> (fs_exists (files s) out \<and> \<not> force))"
      unfolding oc by auto
    have su: "outcome_between s s' = Succeeded \<longleftrightarrow>
                 reaches_conversion (files s) i out force \<and> converts cl (files s) i out q mw mh mm"
      unfolding oc fr by (auto simp: reaches_conversion_def)
    have fa: "outcome_between s s' = Failed \<longleftrightarrow>
              \<not> fs_exists (files s) i \<or> \<not> fs_is_regular_file (files s) i
              \<or> (reaches_conversion (files s) i out force \<and> \<not> converts cl (files s) i out q mw mh mm)"
      unfolding oc fr by (auto simp: reaches_conversion_def)
    have ex: "outcome_between s s' = Succeeded \<longrightarrow> fs_exists (files s') out"
    proof
      assume that: "outcome_between s s' = Succeeded"
      from that su have rc: "reaches_conversion (files s) i out force" and "fst r"
        using fr by simp_all
      then have f: "fst (convert_heif_to_jpeg cl i out q mw mh mm (emit (Call_process_file i out mm) s))"
        by (simp add: r_def)
      from convert_success(4) [OF f] process_file_convert(2) [OF rc refl, of cl q mw mh mm]
      show "fs_exists (files s') out" unfolding s' by simp
    qed
    have calls: "process_file_calls (trace s') = process_file_calls (trace s) @ [(i, out, mm)]"
      using process_file_trace [of cl i out q force mw mh mm s] unfolding s' by auto
    from t sk su fa ex calls show ?thesis by (intro conjI)
  qed
  show ?thesis
    by (rule conjI, rule none, intro allI impI, erule some)
qed


theorem C8_outcome_or_termination_witness:
  "(\<exists>s'. process_file_or_terminate demo_collaborators ''b.heic'' ''b.jpg'' 95 False 0 0 100 demo_world = Some s'
        \<and> outcome_between demo_world s' = Skipped \<and> skip_count s' = 1)
   \<and> (\<exists>s'. process_file_or_terminate demo_collaborators ''a.heic'' ''a.jpg'' 95 False 0 0 100 demo_world = Some s'
        \<and> outcome_between demo_world s' = Failed \<and> fail_count s' = 1)
   \<and> (\<exists>s'. process_file_or_terminate demo_collaborators ''a.heic'' ''a.jpg'' 95 False 0 0 0 demo_world = Some s'
        \<and> outcome_between demo_world s' = Succeeded \<and> success_count s' = 1
        \<and> fs_exists (files s') ''a.jpg'')"
proof -
  have f: "fs_exists (files demo_world) ''b.heic''" "fs_is_regular_file (files demo_world) ''b.heic''"
    "fs_exists (files demo_world) ''b.jpg''"
    "fs_exists (files demo_world) ''a.heic''" "fs_is_regular_file (files demo_world) ''a.heic''"
    by (simp_all add: fs_exists_def fs_is_regular_file_def demo_world_def demo_files_def)
  have r: "reaches_conversion (files demo_world) ''a.heic'' ''a.jpg'' False"
    using demo_reaches_a by (simp add: demo_world_def)
  have z: "success_count demo_world = 0" "fail_count demo_world = 0" "skip_count demo_world = 0"
    by (simp_all add: demo_world_def)
  define sb where "sb = process_file demo_collaborators ''b.heic'' ''b.jpg'' 95 False 0 0 100 demo_world"
  define sa where "sa = process_file demo_collaborators ''a.heic'' ''a.jpg'' 95 False 0 0 100 demo_world"
  define su where "su = process_file demo_collaborators ''a.heic'' ''a.jpg'' 95 False 0 0 0 demo_world"
  have rb: "process_file_or_terminate demo_collaborators ''b.heic'' ''b.jpg'' 95 False 0 0 100 demo_world = Some sb"
    by (simp add: process_file_or_terminate_eq demo_never_terminates sb_def)
  have ra: "process_file_or_terminate demo_collaborators ''a.heic'' ''a.jpg'' 95 False 0 0 100 demo_world = Some sa"
    by (simp add: process_file_or_terminate_eq demo_never_terminates sa_def)
  have ru: "process_file_or_terminate demo_collaborators ''a.heic'' ''a.jpg'' 95 False 0 0 0 demo_world = Some su"
    by (simp add: process_file_or_terminate_eq demo_never_terminates su_def)
  from C8_outcome_or_termination [OF refl, where cl = demo_collaborators and i = "''b.heic''"
      and out = "''b.jpg''" and q = 95 and force = False and mw = 0 and mh = 0 and mm = 100
      and s = demo_world] rb f
  have b: "outcome_between demo_world sb = Skipped \<and> skip_count sb = 1"
    by (simp add: tally_def z)
  from C8_outcome_or_termination [OF refl, where cl = demo_collaborators and i = "''a.heic''"
      and out = "''a.jpg''" and q = 95 and force = False and mw = 0 and mh = 0 and mm = 100
      and s = demo_world] ra f r demo_converts_a(2)
  have a: "outcome_between demo_world sa = Failed \<and> fail_count sa = 1"
    by (simp add: tally_def z)
  from C8_outcome_or_termination [OF refl, where cl = demo_collaborators and i = "''a.heic''"
      and out = "''a.jpg''" and q = 95 and force = False and mw = 0 and mh = 0 and mm = 0
      and s = demo_world] ru f r demo_converts_a(1)
  have u: "outcome_between demo_world su = Succeeded \<and> success_count su = 1 \<and> fs_exists (files su) ''a.jpg''"
    by (simp add: tally_def z)
  from rb b ra a ru u show ?thesis by (intro conjI exI [of _ sb] exI [of _ sa] exI [of _ su]) simp_all
qed

subsection \<open>C9: refused before decoding\<close>

text \<open>
  Claim C9 says that every job whose estimate exceeds the ceiling is refused inside the
  conversion and counted as failed. A job that \<^verbatim>\<open>process_file\<close> skips does not reach the
  conversion: with an existing destination the job for \<^verbatim>\<open>a.heic\<close> (138 MB, ceiling 100)
  is counted as skipped.
\<close>

theorem C9_counterexample:
  "memory_per_thread_mb demo_processor < estimated_memory_mb demo_job_c
   \<and> estimated_memory_mb demo_job_c
       = estimate_memory_requirement demo_collaborators (files demo_world) (input_path demo_job_c)
   \<and> (\<exists>s'. worker_body_or_terminate demo_collaborators demo_processor demo_job_c demo_world = Some s'
         \<and> fail_count s' = 0 \<and> skip_count s' = 1)"
proof -
  have nf: "\<not> force_overwrite demo_processor" by (simp add: demo_processor_def)
  have reg: "fs_is_regular_file (files demo_world) (input_path demo_job_c)"
    by (simp add: fs_is_regular_file_def demo_world_def demo_files_def demo_job_c_def)
  have ex: "fs_exists (files demo_world) (output_path demo_job_c)"
    by (simp add: fs_exists_def demo_world_def demo_files_def demo_job_c_def)
  have "outcome_between demo_world (worker_body demo_collaborators demo_processor demo_job_c demo_world) = Skipped"
    using nf reg ex by (rule worker_body_skips(1))
  with worker_body_tally [of demo_world demo_collaborators demo_processor demo_job_c]
  have "tally Skipped demo_world (worker_body demo_collaborators demo_processor demo_job_c demo_world)"
    by simp
  then show ?thesis
    using status_answers [OF demo_answers, of demo_processor demo_job_c demo_world]
    by (simp add: tally_def demo_world_def demo_processor_def demo_job_c_def demo_estimate_a)
qed


text \<open>
  Claim C9, as amended. With a positive limit \<^verbatim>\<open>convert_heif_to_jpeg\<close> estimates the
  source again and returns false, without decoding and without touching a file, when the
  estimate exceeds the limit. The ceiling of a constructed processor is positive. So a job
  that carries the estimate of its source, above the ceiling, is never decoded and never
  succeeds. Its call ends in an uncaught exception exactly when the status of its source
  cannot be read, or the source is a regular file of a recognized type and the status of the
  destination cannot be read. Otherwise the call returns: when the job passes the checks of
  \<^verbatim>\<open>process_file\<close> (source present, regular and of a recognized type, destination absent
  or overwriting allowed) it is refused in the conversion and counted as failed; when its
  source is missing or not a regular file it is counted as failed without reaching the
  conversion; and when its source is a regular file and either the type is not recognized or
  the destination exists without permission to overwrite, it is counted as skipped without
  reaching the conversion.
\<close>

theorem C9_never_decoded:
  assumes ctor: "new_BatchProcessor q force mw mh budget n = Some bp0"
    and bp: "bp = bp0\<lparr>job_queue := jobs\<rparr>"
    and est: "estimated_memory_mb j = estimate_memory_requirement cl (files s) (input_path j)"
    and exceeds: "memory_per_thread_mb bp < estimated_memory_mb j"
    and res: "res = worker_body_or_terminate cl bp j s"
  shows "0 < memory_per_thread_mb bp
       \<and> (res = None \<longleftrightarrow>
             os_status_fails cl (files s) (input_path j)
           \<or> (fs_exists (files s) (input_path j) \<and> fs_is_regular_file (files s) (input_path j)
               \<and> recognized_type (input_path j) \<and> os_status_fails cl (files s) (output_path j)))
       \<and> (\<forall>s'. res = Some s' \<longrightarrow>
             decode_calls (trace s') = decode_calls (trace s)
           \<and> files s' = files s
           \<and> success_count s' = success_count s
           \<and> (reaches_conversion (files s) (input_path j) (output_path j) (force_overwrite bp)
                \<longrightarrow> tally Failed s s'
                    \<and> convert_calls (trace s')
                        = convert_calls (trace s) @ [(input_path j, output_path j, memory_per_thread_mb bp)])
           \<and> (\<not> fs_exists (files s) (input_path j) \<or> \<not> fs_is_regular_file (files s) (input_path j)
                \<longrightarrow> tally Failed s s' \<and> convert_calls (trace s') = convert_calls (trace s))
           \<and> (fs_exists (files s) (input_path j) \<and> fs_is_regular_file (files s) (input_path j)
               \<and> (\<not> recognized_type (input_path j)
                   \<or> (fs_exists (files s) (output_path j) \<and> \<not> force_overwrite bp))
                \<longrightarrow> tally Skipped s s' \<and> convert_calls (trace s') = convert_calls (trace s)))
       \<and> (\<forall>limit i out. 0 < limit \<and> limit < estimate_memory_requirement cl (files s) i
            \<longrightarrow> (\<exists>r. convert_heif_to_jpeg_or_terminate cl i out q mw mh limit s = Some r
                    \<and> \<not> fst r \<and> files (snd r) = files s
                    \<and> decode_calls (trace (snd r)) = decode_calls (trace s)))"
proof -
  let ?w = "emit (Print (Warn_exceeds_limit (input_path j) (estimated_memory_mb j)
                  (memory_per_thread_mb bp))) s"
  have pos: "0 < memory_per_thread_mb bp"
    using new_BatchProcessor_positive(1) [OF ctor] bp by simp
  have e0: "memory_per_thread_mb bp < estimate_memory_requirement cl (files s) (input_path j)"
    using est exceeds by simp
  then have e: "memory_per_thread_mb bp < estimate_memory_requirement cl (files ?w) (input_path j)"
    by simp
  have nc: "\<not> conversion_terminates cl (files s) (input_path j) (output_path j) (max_width bp)
      (max_height bp) (memory_per_thread_mb bp)"
    using pos e0 by (simp add: conversion_terminates_def)
  have none: "res = None \<longleftrightarrow>
             os_status_fails cl (files s) (input_path j)
           \<or> (fs_exists (files s) (input_path j) \<and> fs_is_regular_file (files s) (input_path j)
               \<and> recognized_type (input_path j) \<and> os_status_fails cl (files s) (output_path j))"
    unfolding res using nc by (simp add: worker_body_or_terminate_eq process_file_terminates_def)
  have some: "decode_calls (trace s') = decode_calls (trace s)
           \<and> files s' = files s
           \<and> success_count s' = success_count s
           \<and> (reaches_conversion (files s) (input_path j) (output_path j) (force_overwrite bp)
                \<longrightarrow> tally Failed s s'
                    \<and> convert_calls (trace s')
                        = convert_calls (trace s) @ [(input_path j, output_path j, memory_per_thread_mb bp)])
           \<and> (\<not> fs_exists (files s) (input_path j) \<or> \<not> fs_is_regular_file (files s) (input_path j)
                \<longrightarrow> tally Failed s s' \<and> convert_calls (trace s') = convert_calls (trace s))
           \<and> (fs_exists (files s) (input_path j) \<and> fs_is_regular_file (files s) (input_path j)
               \<and> (\<not> recognized_type (input_path j)
                   \<or> (fs_exists (files s) (output_path j) \<and> \<not> force_overwrite bp))
                \<longrightarrow> tally Skipped s s' \<and> convert_calls (trace s') = convert_calls (trace s))"
    if "res = Some s'" for s'
  proof -
    from that have s': "s' = worker_body cl bp j s"
      unfolding res by (rule worker_body_or_terminate_Some)
    have w: "s' = process_file cl (input_path j) (output_path j) (quality bp) (force_overwrite bp)
           (max_width bp) (max_height bp) (memory_per_thread_mb bp) ?w"
      unfolding s' using exceeds by (rule worker_body_warned)
    note nd = process_file_never_decodes [OF pos e, of "output_path j" "quality bp"
        "force_overwrite bp" "max_width bp" "max_height bp", folded w]
    have a: "decode_calls (trace s') = decode_calls (trace s)" using nd(1) by simp
    have b: "files s' = files s" using nd(2) by simp
    have c: "success_count s' = success_count s" using nd(3) by simp
    have cc: "convert_calls (trace s') = convert_calls (trace s)
        @ (if reaches_conversion (files s) (input_path j) (output_path j) (force_overwrite bp)
           then [(input_path j, output_path j, memory_per_thread_mb bp)] else [])"
      using worker_body_trace [of cl bp j s] unfolding s' by auto
    have d: "reaches_conversion (files s) (input_path j) (output_path j) (force_overwrite bp)
                \<longrightarrow> tally Failed s s'
                    \<and> convert_calls (trace s')
                        = convert_calls (trace s) @ [(input_path j, output_path j, memory_per_thread_mb bp)]"
    proof
      assume r: "reaches_conversion (files s) (input_path j) (output_path j) (force_overwrite bp)"
      then have r': "reaches_conversion (files ?w) (input_path j) (output_path j) (force_overwrite bp)"
        by simp
      have "tally Failed ?w s'"
        unfolding w using pos e r' by (rule process_file_refused)
      then have "tally Failed s s'" by (simp add: tally_def)
      with cc r show "tally Failed s s'
                    \<and> convert_calls (trace s')
                        = convert_calls (trace s) @ [(input_path j, output_path j, memory_per_thread_mb bp)]"
        by simp
    qed
    have f: "\<not> fs_exists (files s) (input_path j) \<or> \<not> fs_is_regular_file (files s) (input_path j)
                \<longrightarrow> tally Failed s s' \<and> convert_calls (trace s') = convert_calls (trace s)"
    proof
      assume nf: "\<not> fs_exists (files s) (input_path j) \<or> \<not> fs_is_regular_file (files s) (input_path j)"
      then have nf': "\<not> fs_exists (files ?w) (input_path j) \<or> \<not> fs_is_regular_file (files ?w) (input_path j)"
        by simp
      have "tally Failed ?w s'" unfolding w using nf' by (rule process_file_not_found(1))
      then have "tally Failed s s'" by (simp add: tally_def)
      moreover have "\<not> reaches_conversion (files s) (input_path j) (output_path j) (force_overwrite bp)"
        using nf by (auto simp: reaches_conversion_def)
      ultimately show "tally Failed s s' \<and> convert_calls (trace s') = convert_calls (trace s)"
        using cc by simp
    qed
    have g: "fs_exists (files s) (input_path j) \<and> fs_is_regular_file (files s) (input_path j)
               \<and> (\<not> recognized_type (input_path j)
                   \<or> (fs_exists (files s) (output_path j) \<and> \<not> force_overwrite bp))
                \<longrightarrow> tally Skipped s s' \<and> convert_calls (trace s') = convert_calls (trace s)"
    proof
      assume sk: "fs_exists (files s) (input_path j) \<and> fs_is_regular_file (files s) (input_path j)
               \<and> (\<not> recognized_type (input_path j)
                   \<or> (fs_exists (files s) (output_path j) \<and> \<not> force_overwrite bp))"
      then have sk': "fs_exists (files ?w) (input_path j)" "fs_is_regular_file (files ?w) (input_path j)"
          "\<not> recognized_type (input_path j)
             \<or> (fs_exists (files ?w) (output_path j) \<and> \<not> force_overwrite bp)"
        by simp_all
      have "tally Skipped ?w s'" unfolding w using sk' by (rule process_file_skip(1))
      then have "tally Skipped s s'" by (simp add: tally_def)
      moreover have "\<not> reaches_conversion (files s) (input_path j) (output_path j) (force_overwrite bp)"
        using sk by (auto simp: reaches_conversion_def)
      ultimately show "tally Skipped s s' \<and> convert_calls (trace s') = convert_calls (trace s)"
        using cc by simp
    qed
    from a b c d f g show ?thesis by (intro conjI)
  qed
  have cv: "\<forall>limit i out. 0 < limit \<and> limit < estimate_memory_requirement cl (files s) i
            \<longrightarrow> (\<exists>r. convert_heif_to_jpeg_or_terminate cl i out q mw mh limit s = Some r
                    \<and> \<not> fst r \<and> files (snd r) = files s
                    \<and> decode_calls (trace (snd r)) = decode_calls (trace s))"
  proof (intro allI impI)
    fix limit i out
    assume l: "0 < limit \<and> limit < estimate_memory_requirement cl (files s) i"
    then have "\<not> conversion_terminates cl (files s) i out mw mh limit"
      by (simp add: conversion_terminates_def)
    then have "convert_heif_to_jpeg_or_terminate cl i out q mw mh limit s
        = Some (convert_heif_to_jpeg cl i out q mw mh limit s)"
      by (simp add: convert_or_terminate_eq)
    moreover note convert_refuses [OF conjunct1 [OF l] conjunct2 [OF l], of out q mw mh]
    ultimately show "\<exists>r. convert_heif_to_jpeg_or_terminate cl i out q mw mh limit s = Some r
                    \<and> \<not> fst r \<and> files (snd r) = files s
                    \<and> decode_calls (trace (snd r)) = decode_calls (trace s)"
      by simp
  qed
  show ?thesis
    by (rule conjI, rule pos, rule conjI, rule none, rule conjI, intro allI impI, erule some, rule cv)
qed

theorem C9_never_decoded_witness:
  "(\<exists>s'. worker_body_or_terminate demo_collaborators demo_processor demo_job_a demo_world = Some s'
        \<and> fail_count s' = 1 \<and> success_count s' = 0 \<and> skip_count s' = 0
        \<and> decode_calls (trace s') = []
        \<and> convert_calls (trace s') = [(''a.heic'', ''a.jpg'', 100)])"
proof -
  have bp: "demo_processor = (demo_processor\<lparr>job_queue := []\<rparr>)\<lparr>job_queue := job_queue demo_processor\<rparr>"
    by simp
  have est: "estimated_memory_mb demo_job_a
      = estimate_memory_requirement demo_collaborators (files demo_world) (input_path demo_job_a)"
    by (simp add: demo_job_a_def demo_world_def demo_estimate_a)
  have exceeds: "memory_per_thread_mb demo_processor < estimated_memory_mb demo_job_a"
    by (simp add: demo_processor_def demo_job_a_def)
  have r: "reaches_conversion (files demo_world) (input_path demo_job_a) (output_path demo_job_a)
      (force_overwrite demo_processor)"
    using demo_reaches_a by (simp add: demo_world_def demo_job_a_def demo_processor_def)
  define s' where "s' = worker_body demo_collaborators demo_processor demo_job_a demo_world"
  have res: "worker_body_or_terminate demo_collaborators demo_processor demo_job_a demo_world = Some s'"
    unfolding s'_def using demo_answers by (rule status_answers)
  from C9_never_decoded [OF demo_ctor bp est exceeds refl] res r
  have "fail_count s' = 1 \<and> success_count s' = 0 \<and> skip_count s' = 0
        \<and> decode_calls (trace s') = []
        \<and> convert_calls (trace s') = [(''a.heic'', ''a.jpg'', 100)]"
    by (simp add: tally_def demo_world_def demo_job_a_def demo_processor_def)
  with res show ?thesis by blast
qed

subsection \<open>C10: the exit code\<close>

text \<open>
  Claim C10. After a batch run the exit code is 1 exactly when the counter of failures is
  positive, which is exactly when some job failed, and 0 otherwise; a run whose jobs were all
  skipped or converted exits with 0.
\<close>

theorem C10_exit_code:
  assumes run: "process_all_run cl bp s p"
    and zero: "success_count s = 0" "fail_count s = 0" "skip_count s = 0"
    and workers: "thread_count bp \<noteq> 0"
    and size: "length (job_queue bp) < 2 ^ 31"
  shows "main_exit_code (shared p) = (if 0 < sint (fail_count (shared p)) then 1 else 0)
       \<and> (main_exit_code (shared p) = 1 \<longleftrightarrow> 0 < count_outcome Failed (completed p))
       \<and> (main_exit_code (shared p) = 0 \<longleftrightarrow> count_outcome Failed (completed p) = 0)
       \<and> ((\<forall>c \<in> set (completed p). snd c \<noteq> Failed) \<longrightarrow> main_exit_code (shared p) = 0)"
proof -
  have f: "sint (fail_count (shared p)) = int (count_outcome Failed (completed p))"
    using run zero workers size by (rule run_counters(2))
  have "count_outcome Failed (completed p) = 0" if "\<forall>c \<in> set (completed p). snd c \<noteq> Failed"
    using that by (simp add: count_outcome_def)
  then show ?thesis
    using f by (auto simp: main_exit_code_def)
qed

theorem C10_exit_code_witness:
  "\<exists>p. process_all_run demo_collaborators demo_processor demo_world p
      \<and> main_exit_code (shared p) = 1
      \<and> sint (fail_count (shared p)) = 1"
proof -
  have w: "thread_count demo_processor \<noteq> 0" by (simp add: demo_processor_def)
  from process_all_can_return [OF w demo_run] obtain p where
    run: "process_all_run demo_collaborators demo_processor demo_world p"
    and sh: "Some (shared p) = worker_thread demo_collaborators demo_processor demo_world"
    using demo_run by auto
  have z: "success_count demo_world = 0" "fail_count demo_world = 0" "skip_count demo_world = 0"
    by (simp_all add: demo_world_def)
  have sz: "length (job_queue demo_processor) < 2 ^ 31" by (simp add: demo_processor_def)
  have "fail_count (shared p) = 1"
    using sh unfolding demo_run by simp
  with C10_exit_code [OF run z w sz] have "main_exit_code (shared p) = 1 \<and> sint (fail_count (shared p)) = 1"
    by simp
  with run show ?thesis by blast
qed

end
